theory Spec2Isabelle
  imports Main "HOL-Library.Multiset"
begin

section \<open>JavaScript strings\<close>

text \<open>
  A JavaScript string is modelled as a \<^typ>\<open>string\<close>: the list of its code units, each
  taken from the range 0..255.  Everything the engine looks for (tags, braces, pipes,
  digits, attribute names) is ASCII.  Indices are numbers in the source and \<^typ>\<open>int\<close>
  here (\<open>indexOf\<close> answers \<open>-1\<close>, the replacement planner uses
  \<open>Number.MAX_SAFE_INTEGER\<close>).
\<close>

definition js_ws_chars :: string where
  "js_ws_chars = [CHR 0x09, CHR 0x0A, CHR 0x0B, CHR 0x0C, CHR 0x0D, CHR 0x20, CHR 0xA0]"

definition js_ws :: "char \<Rightarrow> bool" where
  \<comment> \<open>the class \<open>\s\<close> (and what \<open>trim\<close> strips) among the code units below 256\<close>
  "js_ws c = (c \<in> set js_ws_chars)"

definition js_digit :: "char \<Rightarrow> bool" where
  \<comment> \<open>the class \<open>\d\<close>\<close>
  "js_digit c = (c \<in> set ''0123456789'')"

definition js_word :: "char \<Rightarrow> bool" where
  \<comment> \<open>the class \<open>\w\<close>\<close>
  "js_word c = (c \<in> set ''abcdefghijklmnopqrstuvwxyzABCDEFGHIJKLMNOPQRSTUVWXYZ0123456789_'')"

definition js_trim :: "string \<Rightarrow> string" where
  "js_trim s = rev (dropWhile js_ws (rev (dropWhile js_ws s)))"

definition js_upper_chars :: string where
  "js_upper_chars = ''ABCDEFGHIJKLMNOPQRSTUVWXYZ'' @
     [CHR 0xC0, CHR 0xC1, CHR 0xC2, CHR 0xC3, CHR 0xC4, CHR 0xC5, CHR 0xC6, CHR 0xC7,
      CHR 0xC8, CHR 0xC9, CHR 0xCA, CHR 0xCB, CHR 0xCC, CHR 0xCD, CHR 0xCE, CHR 0xCF,
      CHR 0xD0, CHR 0xD1, CHR 0xD2, CHR 0xD3, CHR 0xD4, CHR 0xD5, CHR 0xD6,
      CHR 0xD8, CHR 0xD9, CHR 0xDA, CHR 0xDB, CHR 0xDC, CHR 0xDD, CHR 0xDE]"

definition js_lower_chars :: string where
  "js_lower_chars = ''abcdefghijklmnopqrstuvwxyz'' @
     [CHR 0xE0, CHR 0xE1, CHR 0xE2, CHR 0xE3, CHR 0xE4, CHR 0xE5, CHR 0xE6, CHR 0xE7,
      CHR 0xE8, CHR 0xE9, CHR 0xEA, CHR 0xEB, CHR 0xEC, CHR 0xED, CHR 0xEE, CHR 0xEF,
      CHR 0xF0, CHR 0xF1, CHR 0xF2, CHR 0xF3, CHR 0xF4, CHR 0xF5, CHR 0xF6,
      CHR 0xF8, CHR 0xF9, CHR 0xFA, CHR 0xFB, CHR 0xFC, CHR 0xFD, CHR 0xFE]"

definition js_lower_char :: "char \<Rightarrow> char" where
  "js_lower_char c = (case map_of (zip js_upper_chars js_lower_chars) c of None \<Rightarrow> c | Some d \<Rightarrow> d)"

definition toLowerCase :: "string \<Rightarrow> string" where
  "toLowerCase s = map js_lower_char s"

fun startsWith :: "string \<Rightarrow> string \<Rightarrow> bool" where
  "startsWith s [] = True"
| "startsWith [] (p # ps) = False"
| "startsWith (c # cs) (p # ps) = (c = p \<and> startsWith cs ps)"

fun js_indexOf_from :: "string \<Rightarrow> string \<Rightarrow> int \<Rightarrow> int" where
  "js_indexOf_from [] sub i = (if sub = [] then i else -1)"
| "js_indexOf_from (c # cs) sub i = (if startsWith (c # cs) sub then i else js_indexOf_from cs sub (i + 1))"

definition js_indexOf :: "string \<Rightarrow> string \<Rightarrow> int" where
  \<comment> \<open>\<open>s.indexOf(sub)\<close>\<close>
  "js_indexOf s sub = js_indexOf_from s sub 0"

definition js_includes :: "string \<Rightarrow> string \<Rightarrow> bool" where
  "js_includes s sub = (js_indexOf s sub \<ge> 0)"

definition js_clamp :: "nat \<Rightarrow> int \<Rightarrow> nat" where
  \<comment> \<open>how \<open>slice\<close> reads an index: a negative one counts from the end, all are clamped\<close>
  "js_clamp n a = (if a < 0 then nat (max (int n + a) 0) else nat (min a (int n)))"

definition js_slice :: "string \<Rightarrow> int \<Rightarrow> int \<Rightarrow> string" where
  \<comment> \<open>\<open>s.slice(a, b)\<close>\<close>
  "js_slice s a b = take (js_clamp (length s) b - js_clamp (length s) a) (drop (js_clamp (length s) a) s)"

definition js_slice_from :: "string \<Rightarrow> int \<Rightarrow> string" where
  \<comment> \<open>\<open>s.slice(a)\<close>\<close>
  "js_slice_from s a = drop (js_clamp (length s) a) s"

fun js_join :: "string \<Rightarrow> string list \<Rightarrow> string" where
  "js_join sep [] = []"
| "js_join sep [x] = x"
| "js_join sep (x # y # ys) = x @ sep @ js_join sep (y # ys)"

definition digit_val :: "char \<Rightarrow> nat" where
  "digit_val c = (case map_of (zip ''0123456789'' [0, 1, 2, 3, 4, 5, 6, 7, 8, 9]) c of None \<Rightarrow> 0 | Some d \<Rightarrow> d)"

definition parseInt :: "string \<Rightarrow> nat" where
  \<comment> \<open>\<open>parseInt(ds, 10)\<close> on a string of decimal digits (the only strings the engine
      passes); exact below $2^{53}$\<close>
  "parseInt ds = foldl (\<lambda>n c. 10 * n + digit_val c) 0 ds"

fun nat_digits :: "nat \<Rightarrow> nat \<Rightarrow> string" where
  "nat_digits 0 n = []"
| "nat_digits (Suc fuel) n =
     (if n < 10 then [''0123456789'' ! n] else nat_digits fuel (n div 10) @ [''0123456789'' ! (n mod 10)])"

definition nat_toString :: "nat \<Rightarrow> string" where
  \<comment> \<open>the decimal numeral of a counter or index, as a template literal prints it\<close>
  "nat_toString n = nat_digits (Suc n) n"

section \<open>Regular expressions\<close>

text \<open>
  The engine finds tags and templates with regular expressions.  They are modelled by a
  backtracking matcher that returns every way a pattern can match at a position, in
  the order in which ECMAScript tries them; the first one is the match the engine
  sees.  A state holds the text before the position (reversed), the text from the
  position on, and the groups captured so far.
\<close>

record mstate =
  pre :: string
  rest :: string
  caps :: "(nat \<times> string) list"

datatype rx =
    Sym "char \<Rightarrow> bool"
  | Eps
  | Seq rx rx
  | Alt rx rx
  | Star rx
  | StarLazy rx
  | Cap nat rx
  | WordB
  | Bol
  | Eol
  | NotBehind rx

fun rx_star :: "(mstate \<Rightarrow> mstate list) \<Rightarrow> nat \<Rightarrow> mstate \<Rightarrow> mstate list" where
  \<comment> \<open>greedy \<open>r*\<close>: one more round first, stopping last; a round that consumes nothing is refused\<close>
  "rx_star f 0 st = [st]"
| "rx_star f (Suc n) st =
     concat (map (\<lambda>st'. if length (rest st') < length (rest st) then rx_star f n st' else []) (f st)) @ [st]"

fun rx_star_lazy :: "(mstate \<Rightarrow> mstate list) \<Rightarrow> nat \<Rightarrow> mstate \<Rightarrow> mstate list" where
  \<comment> \<open>lazy \<open>r*?\<close>: stopping first\<close>
  "rx_star_lazy f 0 st = [st]"
| "rx_star_lazy f (Suc n) st =
     st # concat (map (\<lambda>st'. if length (rest st') < length (rest st) then rx_star_lazy f n st' else []) (f st))"

definition rewind :: "nat \<Rightarrow> mstate \<Rightarrow> mstate" where
  "rewind k st = st\<lparr>pre := drop k (pre st), rest := rev (take k (pre st)) @ rest st\<rparr>"

fun rxm :: "rx \<Rightarrow> mstate \<Rightarrow> mstate list" where
  "rxm (Sym P) st =
     (case rest st of [] \<Rightarrow> [] | c # cs \<Rightarrow> if P c then [st\<lparr>pre := c # pre st, rest := cs\<rparr>] else [])"
| "rxm Eps st = [st]"
| "rxm (Seq a b) st = concat (map (\<lambda>s. rxm b s) (rxm a st))"
| "rxm (Alt a b) st = rxm a st @ rxm b st"
| "rxm (Star a) st = rx_star (\<lambda>s. rxm a s) (length (rest st)) st"
| "rxm (StarLazy a) st = rx_star_lazy (\<lambda>s. rxm a s) (length (rest st)) st"
| "rxm (Cap n a) st =
     map (\<lambda>s. s\<lparr>caps := (n, take (length (rest st) - length (rest s)) (rest st)) # caps s\<rparr>) (rxm a st)"
| "rxm WordB st =
     (if (case pre st of [] \<Rightarrow> False | c # _ \<Rightarrow> js_word c) \<noteq> (case rest st of [] \<Rightarrow> False | c # _ \<Rightarrow> js_word c)
      then [st] else [])"
| "rxm Bol st = (if pre st = [] then [st] else [])"
| "rxm Eol st = (if rest st = [] then [st] else [])"
| "rxm (NotBehind a) st =
     (if list_ex (\<lambda>k. list_ex (\<lambda>s. length (rest s) = length (rest st)) (rxm a (rewind k st)))
           (upt 0 (Suc (length (pre st))))
      then [] else [st])"

definition Lit :: "string \<Rightarrow> rx" where
  "Lit s = foldr (\<lambda>c r. Seq (Sym (\<lambda>x. x = c)) r) s Eps"

definition LitI :: "string \<Rightarrow> rx" where
  \<comment> \<open>a literal under the flag \<open>i\<close>; the literals of the engine are ASCII\<close>
  "LitI s = foldr (\<lambda>c r. Seq (Sym (\<lambda>x. js_lower_char x = js_lower_char c)) r) s Eps"

definition Seqs :: "rx list \<Rightarrow> rx" where
  "Seqs rs = foldr Seq rs Eps"

definition Opt :: "rx \<Rightarrow> rx" where
  "Opt r = Alt r Eps"

definition Plus :: "rx \<Rightarrow> rx" where
  "Plus r = Seq r (Star r)"

definition AnyChar :: rx where
  \<comment> \<open>\<open>[\s\S]\<close>\<close>
  "AnyChar = Sym (\<lambda>c. True)"

definition NoneOf :: "string \<Rightarrow> rx" where
  "NoneOf cs = Sym (\<lambda>c. c \<notin> set cs)"

record js_match =
  m_index :: nat
  m_text :: string
  m_groups :: "(nat \<times> string) list"

definition grp :: "js_match \<Rightarrow> nat \<Rightarrow> string option" where
  \<comment> \<open>\<open>m[n]\<close>; \<open>None\<close> is \<open>undefined\<close>\<close>
  "grp m n = map_of (m_groups m) n"

definition grp_or_empty :: "js_match \<Rightarrow> nat \<Rightarrow> string" where
  \<comment> \<open>\<open>m[n] ?? ''\<close>\<close>
  "grp_or_empty m n = (case grp m n of None \<Rightarrow> [] | Some s \<Rightarrow> s)"

definition rx_at :: "rx \<Rightarrow> string \<Rightarrow> string \<Rightarrow> js_match option" where
  "rx_at r p s =
     (case rxm r \<lparr>pre = p, rest = s, caps = []\<rparr> of
        [] \<Rightarrow> None
      | m # _ \<Rightarrow> Some \<lparr>m_index = length p, m_text = take (length s - length (rest m)) s, m_groups = caps m\<rparr>)"

fun rx_search :: "rx \<Rightarrow> string \<Rightarrow> string \<Rightarrow> js_match option" where
  \<comment> \<open>the leftmost match at or after a position\<close>
  "rx_search r p [] = rx_at r p []"
| "rx_search r p (c # cs) = (case rx_at r p (c # cs) of Some m \<Rightarrow> Some m | None \<Rightarrow> rx_search r (c # p) cs)"

definition rx_match :: "rx \<Rightarrow> string \<Rightarrow> js_match option" where
  \<comment> \<open>\<open>s.match(re)\<close> without the flag \<open>g\<close>\<close>
  "rx_match r s = rx_search r [] s"

definition rx_test :: "rx \<Rightarrow> string \<Rightarrow> bool" where
  "rx_test r s = (rx_match r s \<noteq> None)"

function rx_all_from :: "rx \<Rightarrow> string \<Rightarrow> string \<Rightarrow> js_match list" where
  "rx_all_from r p s =
     (case rx_search r p s of
        None \<Rightarrow> []
      | Some m \<Rightarrow>
          (let k = (m_index m - length p) + max 1 (length (m_text m))
           in if length s < k then [m]
              else m # rx_all_from r (rev (take k s) @ p) (drop k s)))"
  by pat_completeness auto
termination
  by (relation "measure (\<lambda>(r, p, s). length s)") auto

definition rx_all :: "rx \<Rightarrow> string \<Rightarrow> js_match list" where
  \<comment> \<open>\<open>s.matchAll(re)\<close> and the loop \<open>while ((m = re.exec(s)) !== null)\<close> for a pattern
      with the flag \<open>g\<close> that matches no empty string\<close>
  "rx_all r s = rx_all_from r [] s"

fun splice_matches :: "string \<Rightarrow> nat \<Rightarrow> (js_match \<Rightarrow> string) \<Rightarrow> js_match list \<Rightarrow> string" where
  "splice_matches s cur f [] = drop cur s"
| "splice_matches s cur f (m # ms) =
     take (m_index m - cur) (drop cur s) @ f m @ splice_matches s (m_index m + length (m_text m)) f ms"

definition rx_replace_all :: "rx \<Rightarrow> (js_match \<Rightarrow> string) \<Rightarrow> string \<Rightarrow> string" where
  \<comment> \<open>\<open>s.replace(re, f)\<close> with the flag \<open>g\<close>\<close>
  "rx_replace_all r f s = splice_matches s 0 f (rx_all r s)"

definition rx_replace_first :: "rx \<Rightarrow> string \<Rightarrow> string \<Rightarrow> string" where
  \<comment> \<open>\<open>s.replace(re, t)\<close> without the flag \<open>g\<close>\<close>
  "rx_replace_first r t s =
     (case rx_match r s of None \<Rightarrow> s
      | Some m \<Rightarrow> take (m_index m) s @ t @ drop (m_index m + length (m_text m)) s)"

section \<open>The parameter parser\<close>

text \<open>\<open>splitTemplateParams\<close>: split on the pipes that are not inside a nested template.\<close>

fun split_pipes :: "string \<Rightarrow> string \<Rightarrow> nat \<Rightarrow> string list" where
  \<comment> \<open>the loop: \<open>current\<close>, \<open>depth\<close> and the text from \<open>i\<close> on\<close>
  "split_pipes [] current depth = (if current \<noteq> [] then [current] else [])"
| "split_pipes (ch # cs) current depth =
     (if ch = CHR ''{'' \<and> (case cs of [] \<Rightarrow> False | nxt # _ \<Rightarrow> nxt = CHR ''{'')
        then split_pipes cs (current @ [ch]) (depth + 1)
      else if ch = CHR ''}'' \<and> (case cs of [] \<Rightarrow> False | nxt # _ \<Rightarrow> nxt = CHR ''}'')
        then split_pipes cs (current @ [ch]) (if depth > 0 then depth - 1 else depth)
      else if ch = CHR ''|'' \<and> depth = 0
        then current # split_pipes cs [] depth
      else split_pipes cs (current @ [ch]) depth)"

definition splitTemplateParams :: "string \<Rightarrow> string list" where
  "splitTemplateParams txt = map js_trim (split_pipes txt [] 0)"

datatype RKind = KName | KGroup | KPage | KPages | KAt | KOther

text \<open>
  \<open>RTemplateEntry\<close>.  The fields carry the prefix \<open>e_\<close>: a record's fields are
  constants of the theory, and several records of the engine have a \<open>name\<close>, a
  \<open>value\<close> or a \<open>key\<close>.
\<close>

record RTemplateEntry =
  e_key :: "string option"
  e_value :: string
  e_kind :: RKind
  e_index :: nat
  e_isName :: bool

definition digitsRx :: rx where
  "digitsRx = Star (Sym js_digit)"

definition nameIdxRx :: rx where
  \<comment> \<open>\<open>/^(?:name|n)?(\d*)$/i\<close>\<close>
  "nameIdxRx = Seqs [Bol, Opt (Alt (LitI ''name'') (LitI ''n'')), Cap 1 digitsRx, Eol]"

definition groupIdxRx :: rx where
  \<comment> \<open>\<open>/^(?:grp|group|g)?(\d*)$/i\<close>\<close>
  "groupIdxRx = Seqs [Bol, Opt (Alt (LitI ''grp'') (Alt (LitI ''group'') (LitI ''g''))), Cap 1 digitsRx, Eol]"

definition pageIdxRx :: rx where
  \<comment> \<open>\<open>/^(?:page|p)?(\d*)$/i\<close>\<close>
  "pageIdxRx = Seqs [Bol, Opt (Alt (LitI ''page'') (LitI ''p'')), Cap 1 digitsRx, Eol]"

definition pagesIdxRx :: rx where
  \<comment> \<open>\<open>/^(?:pages|pp)?(\d*)$/i\<close>\<close>
  "pagesIdxRx = Seqs [Bol, Opt (Alt (LitI ''pages'') (LitI ''pp'')), Cap 1 digitsRx, Eol]"

definition atIdxRx :: rx where
  \<comment> \<open>\<open>/^(?:at|location|loc)?(\d*)$/i\<close>\<close>
  "atIdxRx = Seqs [Bol, Opt (Alt (LitI ''at'') (Alt (LitI ''location'') (LitI ''loc''))), Cap 1 digitsRx, Eol]"

definition nameKeyRx :: rx where
  \<comment> \<open>\<open>/^name\d*$/i\<close>\<close>
  "nameKeyRx = Seqs [Bol, LitI ''name'', digitsRx, Eol]"

definition nKeyRx :: rx where
  \<comment> \<open>\<open>/^n\d*$/i\<close>\<close>
  "nKeyRx = Seqs [Bol, LitI ''n'', digitsRx, Eol]"

definition numKeyRx :: rx where
  \<comment> \<open>\<open>/^\d+$/\<close>\<close>
  "numKeyRx = Seqs [Bol, Plus (Sym js_digit), Eol]"

definition groupKeyRx :: rx where
  \<comment> \<open>\<open>/^(grp|group|g)\d*$/i\<close>\<close>
  "groupKeyRx = Seqs [Bol, Cap 1 (Alt (LitI ''grp'') (Alt (LitI ''group'') (LitI ''g''))), digitsRx, Eol]"

definition pageKeyRx :: rx where
  \<comment> \<open>\<open>/^(page|p)\d*$/i\<close>\<close>
  "pageKeyRx = Seqs [Bol, Cap 1 (Alt (LitI ''page'') (LitI ''p'')), digitsRx, Eol]"

definition pagesKeyRx :: rx where
  \<comment> \<open>\<open>/^(pages|pp)\d*$/i\<close>\<close>
  "pagesKeyRx = Seqs [Bol, Cap 1 (Alt (LitI ''pages'') (LitI ''pp'')), digitsRx, Eol]"

definition atKeyRx :: rx where
  \<comment> \<open>\<open>/^(at|location|loc)\d*$/i\<close>\<close>
  "atKeyRx = Seqs [Bol, Cap 1 (Alt (LitI ''at'') (Alt (LitI ''location'') (LitI ''loc''))), digitsRx, Eol]"

definition trailingDigitsRx :: rx where
  \<comment> \<open>\<open>/(\d+)$/\<close>\<close>
  "trailingDigitsRx = Seqs [Cap 1 (Plus (Sym js_digit)), Eol]"

record rt_state =
  nameCounter :: nat
  lastNameIndex :: nat
  hasGroupIndex1 :: bool
  entries :: "RTemplateEntry list"

definition suffix_or :: "js_match option \<Rightarrow> nat \<Rightarrow> nat" where
  \<comment> \<open>\<open>m[1] ? parseInt(m[1], 10) : d\<close>\<close>
  "suffix_or m d = (case m of None \<Rightarrow> d | Some mm \<Rightarrow> if grp_or_empty mm 1 \<noteq> [] then parseInt (grp_or_empty mm 1) else d)"

definition rt_kind_index :: "rt_state \<Rightarrow> string \<Rightarrow> RKind \<times> nat \<times> rt_state" where
  \<comment> \<open>the chain of tests on the key: the kind, the index, and the counters after it\<close>
  "rt_kind_index st key =
     (let nameIdxMatch = rx_match nameIdxRx key;
          groupIdxMatch = rx_match groupIdxRx key;
          pageIdxMatch = rx_match pageIdxRx key;
          pagesIdxMatch = rx_match pagesIdxRx key;
          atIdxMatch = rx_match atIdxRx key;
          idx = max (nameCounter st) 1
      in if nameIdxMatch \<noteq> None \<and> (key = [] \<or> rx_test nameKeyRx key \<or> rx_test nKeyRx key \<or> rx_test numKeyRx key) then
           (if grp_or_empty (the nameIdxMatch) 1 \<noteq> []
            then (let i = parseInt (grp_or_empty (the nameIdxMatch) 1)
                  in (KName, i, st\<lparr>lastNameIndex := i\<rparr>))
            else (let i = nameCounter st + 1
                  in (KName, i, st\<lparr>nameCounter := i, lastNameIndex := i\<rparr>)))
         else if groupIdxMatch \<noteq> None \<and> (rx_test groupKeyRx key \<or> key = []) then
           (let i = (if grp_or_empty (the groupIdxMatch) 1 \<noteq> [] then parseInt (grp_or_empty (the groupIdxMatch) 1)
                     else if hasGroupIndex1 st \<and> lastNameIndex st > 1 then lastNameIndex st
                     else 1)
            in (KGroup, i, if i = 1 then st\<lparr>hasGroupIndex1 := True\<rparr> else st))
         else if pageIdxMatch \<noteq> None \<and> (rx_test pageKeyRx key \<or> key = []) then
           (KPage, suffix_or pageIdxMatch 1, st)
         else if pagesIdxMatch \<noteq> None \<and> (rx_test pagesKeyRx key \<or> key = []) then
           (KPages, suffix_or pagesIdxMatch 1, st)
         else if atIdxMatch \<noteq> None \<and> (rx_test atKeyRx key \<or> key = []) then
           (KAt, suffix_or atIdxMatch 1, st)
         else
           (KOther, (case rx_match trailingDigitsRx key of None \<Rightarrow> idx | Some m \<Rightarrow> parseInt (grp_or_empty m 1)), st))"

definition rt_step :: "rt_state \<Rightarrow> string \<Rightarrow> rt_state" where
  \<comment> \<open>the body of \<open>parts.forEach\<close>\<close>
  "rt_step st part =
     (let raw = js_trim part
      in if raw = [] then st
         else
           (let eqIdx = js_indexOf raw ''='';
                key = (if eqIdx \<ge> 0 then js_trim (js_slice raw 0 eqIdx) else []);
                val = (if eqIdx \<ge> 0 then js_trim (js_slice_from raw (eqIdx + 1)) else raw)
            in case rt_kind_index st key of
                 (kind, idx, st1) \<Rightarrow>
                   if val = [] then st1
                   else
                     (let st2 = (if kind = KName \<and> idx > nameCounter st1 then st1\<lparr>nameCounter := idx\<rparr> else st1)
                      in st2\<lparr>entries := entries st2 @
                           [\<lparr>e_key = (if key = [] then None else Some key), e_value = val, e_kind = kind,
                             e_index = (if idx = 0 then 1 else idx), e_isName = (kind = KName)\<rparr>]\<rparr>)))"

definition parseRTemplateEntries :: "string \<Rightarrow> RTemplateEntry list" where
  "parseRTemplateEntries paramString =
     (let trimmed = rx_replace_first (Seqs [Bol, Lit ''|'']) [] paramString
      in if trimmed = [] then []
         else entries (foldl rt_step \<lparr>nameCounter = 0, lastNameIndex = 0, hasGroupIndex1 = False, entries = []\<rparr>
                         (splitTemplateParams trimmed)))"

definition parseRTemplateNames :: "string \<Rightarrow> string list" where
  "parseRTemplateNames paramString = map e_value (filter e_isName (parseRTemplateEntries paramString))"

section \<open>The replacement applier\<close>

record Replacement =
  r_start :: int
  r_end :: int
  r_text :: string

fun keep_first_span :: "(int \<times> int) list \<Rightarrow> Replacement list \<Rightarrow> Replacement list" where
  \<comment> \<open>the loop over \<open>filtered\<close> with the set \<open>seen\<close>.  The key is the string
      \<open>`${r.start}-${r.end}`\<close>; two pairs of integers print the same key only when they are
      the same pair, so the pair stands for the key.\<close>
  "keep_first_span seen [] = []"
| "keep_first_span seen (r # rs) =
     (if (r_start r, r_end r) \<in> set seen then keep_first_span seen rs
      else r # keep_first_span ((r_start r, r_end r) # seen) rs)"

definition collapseReplacements :: "Replacement list \<Rightarrow> Replacement list" where
  \<comment> \<open>\<open>Array.prototype.sort\<close> is stable, as \<^const>\<open>sort_key\<close> is; the comparator
      \<open>b.start - a.start\<close> orders by falling start\<close>
  "collapseReplacements repls = keep_first_span [] (sort_key (\<lambda>r. - r_start r) repls)"

fun apply_sorted :: "string \<Rightarrow> int \<Rightarrow> Replacement list \<Rightarrow> string" where
  \<comment> \<open>\<open>sorted.forEach\<close> with its variables \<open>output\<close> and \<open>offset\<close>\<close>
  "apply_sorted output offset [] = output"
| "apply_sorted output offset (r # rs) =
     apply_sorted
       (js_slice output 0 (r_start r + offset) @ r_text r @ js_slice_from output (r_end r + offset))
       (offset + (int (length (r_text r)) - (r_end r - r_start r)))
       rs"

definition applyReplacements :: "string \<Rightarrow> Replacement list \<Rightarrow> string" where
  "applyReplacements source replacements = apply_sorted source 0 (sort_key r_start replacements)"

section \<open>The markup tokenizer\<close>

record TemplateParam =
  p_name :: "string option"
  p_value :: string

record TemplateMatch =
  t_start :: int
  t_end :: int
  t_name :: string
  t_content :: string
  t_params :: "TemplateParam list"

definition splitParams :: "string \<Rightarrow> string list" where
  \<comment> \<open>the same loop as \<open>splitTemplateParams\<close>, written a second time in the source\<close>
  "splitParams txt = map js_trim (split_pipes txt [] 0)"

definition endsWith :: "string \<Rightarrow> string \<Rightarrow> bool" where
  "endsWith s p = startsWith (rev s) (rev p)"

fun number_params :: "nat \<Rightarrow> string list \<Rightarrow> TemplateParam list" where
  \<comment> \<open>\<open>parts.map\<close> with the counter \<open>numberedIndex\<close>\<close>
  "number_params numberedIndex [] = []"
| "number_params numberedIndex (p # ps) =
     (let eqIdx = js_indexOf p ''=''
      in if eqIdx = -1
         then \<lparr>p_name = Some (nat_toString (numberedIndex + 1)), p_value = p\<rparr> # number_params (numberedIndex + 1) ps
         else \<lparr>p_name = Some (js_trim (js_slice p 0 eqIdx)), p_value = js_slice_from p (eqIdx + 1)\<rparr>
                # number_params numberedIndex ps)"

definition parseTemplateParams :: "string \<Rightarrow> TemplateParam list" where
  "parseTemplateParams paramText =
     (let working0 = js_trim paramText;
          working =
            (if startsWith working0 ''{{'' then
               (let w1 = (if endsWith working0 ''}}'' \<and> length working0 \<ge> 4
                          then js_trim (js_slice working0 2 (-2))
                          else js_trim (rx_replace_first (Seqs [Bol, Lit ''{{'']) [] working0));
                    pipeIdx = js_indexOf w1 ''|''
                in if pipeIdx = -1 then [] else js_slice_from w1 (pipeIdx + 1))
             else working0);
          trimmed = rx_replace_first (Seqs [Bol, Star (Sym js_ws), Opt (Lit ''|'')]) [] working
      in if trimmed = [] then [] else number_params 0 (splitParams trimmed))"

definition js_templateNameChar :: "char \<Rightarrow> bool" where
  \<comment> \<open>\<open>/[A-Za-z0-9_:-]/\<close>\<close>
  "js_templateNameChar c = (js_word c \<or> c = CHR '':'' \<or> c = CHR ''-'')"

fun scan_depth :: "string \<Rightarrow> nat \<Rightarrow> nat \<Rightarrow> nat \<times> nat" where
  \<comment> \<open>the loop \<open>while (k < source.length && depth > 0)\<close>, on the text from \<open>k\<close> on;
      it returns \<open>k\<close> and \<open>depth\<close>\<close>
  "scan_depth [] k depth = (k, depth)"
| "scan_depth [c] k depth = (if depth = 0 then (k, depth) else (k + 1, depth))"
| "scan_depth (c # d # cs) k depth =
     (if depth = 0 then (k, depth)
      else if c = CHR ''{'' \<and> d = CHR ''{'' then scan_depth cs (k + 2) (depth + 1)
      else if c = CHR ''}'' \<and> d = CHR ''}'' then scan_depth cs (k + 2) (depth - 1)
      else scan_depth (d # cs) (k + 1) depth)"

lemma js_indexOf_from_ge: "js_indexOf_from s sub i \<noteq> -1 \<Longrightarrow> i \<ge> 0 \<Longrightarrow> js_indexOf_from s sub i \<ge> i"
  by (induction s sub i rule: js_indexOf_from.induct) (auto split: if_splits)

lemma scan_depth_ge: "scan_depth s k d = (k', d') \<Longrightarrow> k \<le> k'"
  by (induction s k d arbitrary: k' d' rule: scan_depth.induct) (auto split: if_splits)

function findTemplates_from :: "string \<Rightarrow> string list \<Rightarrow> nat \<Rightarrow> TemplateMatch list" where
  \<comment> \<open>the loop \<open>while (i < source.length)\<close>\<close>
  "findTemplates_from source lowerNames i =
     (if \<not> i < length source then []
      else
        (let idx = js_indexOf_from (drop i source) ''{{'' (int i)
         in if idx = -1 then []
            else
              (let j = nat idx + 2 + length (takeWhile js_ws (drop (nat idx + 2) source));
                   nameEnd = j + length (takeWhile js_templateNameChar (drop j source));
                   name = js_slice source (int j) (int nameEnd)
               in if toLowerCase name \<notin> set lowerNames then findTemplates_from source lowerNames (nat idx + 2)
                  else
                    (case scan_depth (drop nameEnd source) nameEnd 1 of
                       (k, depth) \<Rightarrow>
                         if depth \<noteq> 0 then findTemplates_from source lowerNames nameEnd
                         else
                           \<lparr>t_start = idx, t_end = int k, t_name = name,
                            t_content = js_slice source idx (int k),
                            t_params = parseTemplateParams (js_slice source (int nameEnd) (int k - 2))\<rparr>
                             # findTemplates_from source lowerNames k))))"
  by pat_completeness auto
termination
proof (relation "measure (\<lambda>(source, lowerNames, i). length source - i)", goal_cases)
  case 1
  show ?case by simp
next
  case (2 source lowerNames i idx)
  have "int i \<le> idx" using 2(2,3) js_indexOf_from_ge [of "drop i source" "''{{''" "int i"] by simp
  then have "i \<le> nat idx" by linarith
  then show ?case using 2(1) by simp
next
  case (3 source lowerNames i idx j nameEnd name k depth)
  have "int i \<le> idx" using 3(2,3) js_indexOf_from_ge [of "drop i source" "''{{''" "int i"] by simp
  then have "i \<le> nat idx" by linarith
  then have "i < nameEnd" using 3(4,5) by linarith
  then show ?case using 3(1) by simp
next
  case (4 source lowerNames i idx j nameEnd name k depth)
  have "int i \<le> idx" using 4(2,3) js_indexOf_from_ge [of "drop i source" "''{{''" "int i"] by simp
  then have "i \<le> nat idx" by linarith
  then have a: "i < nameEnd" using 4(4,5) by linarith
  have "nameEnd \<le> k" using 4(8) scan_depth_ge [of "drop nameEnd source" nameEnd 1 k depth] by simp
  then show ?case using a 4(1) by simp
qed

definition findTemplates :: "string \<Rightarrow> string list \<Rightarrow> TemplateMatch list" where
  "findTemplates source names = findTemplates_from source (map toLowerCase names) 0"

definition dq :: char where "dq = CHR 0x22"
definition sq :: char where "sq = CHR 0x27"

definition extractAttrRx :: "string \<Rightarrow> rx" where
  \<comment> \<open>\<open>new RegExp(`${attrName}\\s*=\\s*(?:"([^"]*)"|'([^']*)'|([^\\s"'>]+))`, 'i')\<close>\<close>
  "extractAttrRx attrName =
     Seqs [LitI attrName, Star (Sym js_ws), Lit ''='', Star (Sym js_ws),
           Alt (Seqs [Lit [dq], Cap 1 (Star (NoneOf [dq])), Lit [dq]])
          (Alt (Seqs [Lit [sq], Cap 2 (Star (NoneOf [sq])), Lit [sq]])
               (Cap 3 (Plus (Sym (\<lambda>c. \<not> js_ws c \<and> c \<notin> set [dq, sq, CHR ''>''])))))]"

definition extractAttr :: "string \<Rightarrow> string \<Rightarrow> string option" where
  \<comment> \<open>\<open>None\<close> is \<open>null\<close>\<close>
  "extractAttr attrs attrName =
     (case rx_match (extractAttrRx attrName) attrs of
        None \<Rightarrow> None
      | Some m \<Rightarrow>
          (case grp m 1 of Some v \<Rightarrow> Some v
           | None \<Rightarrow> (case grp m 2 of Some v \<Rightarrow> Some v | None \<Rightarrow> grp m 3)))"

section \<open>JavaScript values and objects\<close>

text \<open>
  A reference's name is a string or \<open>null\<close> in the source's types.  The rename map is a
  plain object: reading \<open>rename[name]\<close> for a name that is not one of its own keys
  goes to \<open>Object.prototype\<close>, whose members (\<open>toString\<close>, \<open>constructor\<close>, ...)
  are functions, not strings.  \<open>JObj k\<close> stands for the member of \<open>Object.prototype\<close>
  found under the key \<open>k\<close>.  The values of the option objects themselves are strings,
  \<open>null\<close> or \<open>undefined\<close>.
\<close>

datatype jsval = JUndefined | JNull | JStr string | JObj string

definition objectPrototypeKeys :: "string list" where
  "objectPrototypeKeys =
     [''constructor'', ''__defineGetter__'', ''__defineSetter__'', ''hasOwnProperty'',
      ''__lookupGetter__'', ''__lookupSetter__'', ''isPrototypeOf'', ''propertyIsEnumerable'',
      ''toString'', ''valueOf'', ''__proto__'', ''toLocaleString'']"

fun truthy :: "jsval \<Rightarrow> bool" where
  "truthy JUndefined = False"
| "truthy JNull = False"
| "truthy (JStr s) = (s \<noteq> [])"
| "truthy (JObj k) = True"

fun js_toString :: "jsval \<Rightarrow> string" where
  \<comment> \<open>what a template literal prints\<close>
  "js_toString JUndefined = ''undefined''"
| "js_toString JNull = ''null''"
| "js_toString (JStr s) = s"
| "js_toString (JObj k) =
     (if k = ''__proto__'' then ''[object Object]''
      else if k = ''constructor'' then ''function Object() { [native code] }''
      else ''function '' @ k @ ''() { [native code] }'')"

fun of_opt :: "string option \<Rightarrow> jsval" where
  "of_opt None = JNull"
| "of_opt (Some s) = JStr s"

fun nullish_or :: "jsval \<Rightarrow> jsval \<Rightarrow> jsval" where
  \<comment> \<open>\<open>a ?? b\<close>\<close>
  "nullish_or JUndefined b = b"
| "nullish_or JNull b = b"
| "nullish_or a b = a"

record js_object =
  own :: "(string \<times> jsval) list"
  has_proto :: bool

definition js_get :: "js_object \<Rightarrow> string \<Rightarrow> jsval" where
  \<comment> \<open>\<open>obj[key]\<close>\<close>
  "js_get obj k =
     (case map_of (own obj) k of
        Some v \<Rightarrow> v
      | None \<Rightarrow> if has_proto obj \<and> k \<in> set objectPrototypeKeys then JObj k else JUndefined)"

definition js_set :: "js_object \<Rightarrow> string \<Rightarrow> jsval \<Rightarrow> js_object" where
  \<comment> \<open>\<open>obj[key] = v\<close>.  Under the key \<open>__proto__\<close> the setter of \<open>Object.prototype\<close>
      runs: \<open>null\<close> removes the prototype, a string is ignored.\<close>
  "js_set obj k v =
     (if k = ''__proto__'' \<and> has_proto obj then (if v = JNull then obj\<lparr>has_proto := False\<rparr> else obj)
      else if k \<in> fst ` set (own obj) then obj\<lparr>own := map (\<lambda>(k', v'). if k' = k then (k', v) else (k', v')) (own obj)\<rparr>
      else obj\<lparr>own := own obj @ [(k, v)]\<rparr>)"

definition empty_object :: js_object where
  \<comment> \<open>\<open>{}\<close>\<close>
  "empty_object = \<lparr>own = [], has_proto = True\<rparr>"

section \<open>The reference model\<close>

datatype RefUseKind = selfClosing | full | templateR

datatype Location = inline | ldr

text \<open>
  \<open>RefUseInternal\<close>.  A use is an object; the planner asks whether a use is among a
  record's definitions (\<open>includes\<close>, by identity), so every use carries the number
  \<open>u_uid\<close> under which the parser created it.
\<close>

record RefUseInternal =
  u_uid :: nat
  u_name :: "string option"
  u_group :: "string option"
  u_start :: int
  u_end :: int
  u_kind :: RefUseKind
  u_content :: "string option"
  u_rTemplateId :: "nat option"

text \<open>
  \<open>RefRecord\<close>.  The records live in a \<open>Map\<close> that keeps insertion order; it is
  modelled by the list of its values.  Wherever the engine looks a record up
  (\<open>refs.get\<close>) the key of the map is the record's own field \<open>key\<close>, and no two records
  of a map share it.  A reference from one record to another (\<open>canonical\<close>) is the key
  of the record referred to.
\<close>

record RefRecord =
  ref_id :: string
  ref_name :: jsval
  ref_group :: "string option"
  ref_key :: string
  definitions :: "RefUseInternal list"
  uses :: "RefUseInternal list"
  ldrDefinitions :: "RefUseInternal list"
  canonical :: "string option"
  targetLocation :: Location

record RTemplate =
  rt_id :: nat
  rt_start :: int
  rt_end :: int
  rt_entries :: "RTemplateEntry list"

definition refKey :: "jsval \<Rightarrow> string option \<Rightarrow> string" where
  \<comment> \<open>\<open>`${group ?? ''}::${name ?? ''}`\<close>\<close>
  "refKey name gname =
     (case gname of None \<Rightarrow> [] | Some g \<Rightarrow> g) @ ''::'' @ js_toString (nullish_or name (JStr []))"

definition find_ref :: "RefRecord list \<Rightarrow> string \<Rightarrow> RefRecord option" where
  \<comment> \<open>\<open>refs.get(key)\<close>\<close>
  "find_ref refs k = find (\<lambda>r. ref_key r = k) refs"

definition upd_ref :: "string \<Rightarrow> (RefRecord \<Rightarrow> RefRecord) \<Rightarrow> RefRecord list \<Rightarrow> RefRecord list" where
  \<comment> \<open>a change made to the record found under a key\<close>
  "upd_ref k f refs = map (\<lambda>r. if ref_key r = k then f r else r) refs"

record parse_state =
  ps_refs :: "RefRecord list"
  ps_nameless :: nat
  ps_uid :: nat
  ps_rTemplates :: "RTemplate list"

definition getRef :: "parse_state \<Rightarrow> string option \<Rightarrow> string option \<Rightarrow> parse_state \<times> string" where
  \<comment> \<open>the closure \<open>getRef\<close> of \<open>parseWikitext\<close>; it answers the key of the record\<close>
  "getRef st name gname =
     (let named = truthy (of_opt name);
          key = (if named then refKey (of_opt name) gname else ''__nameless_'' @ nat_toString (ps_nameless st));
          st1 = (if named then st else st\<lparr>ps_nameless := ps_nameless st + 1\<rparr>)
      in if find_ref (ps_refs st1) key \<noteq> None then (st1, key)
         else (st1\<lparr>ps_refs := ps_refs st1 @
                 [\<lparr>ref_id = key, ref_name = of_opt name, ref_group = gname, ref_key = key,
                   definitions = [], uses = [], ldrDefinitions = [], canonical = None,
                   targetLocation = inline\<rparr>]\<rparr>, key))"

definition inTemplateRange :: "int \<Rightarrow> TemplateMatch list \<Rightarrow> bool" where
  "inTemplateRange idx templates = list_ex (\<lambda>tpl. idx \<ge> t_start tpl \<and> idx \<le> t_end tpl) templates"

definition refFullRx :: rx where
  \<comment> \<open>\<open>/<ref\b([^>/]*?)>([\s\S]*?)<\/ref>/gi\<close>\<close>
  "refFullRx = Seqs [LitI ''<ref'', WordB, Cap 1 (StarLazy (NoneOf ''>/'')), Lit ''>'',
                     Cap 2 (StarLazy AnyChar), LitI ''</ref>'']"

definition refSelfRx :: rx where
  \<comment> \<open>\<open>/<ref\b([^>]*?)\/\s*>/gi\<close>\<close>
  "refSelfRx = Seqs [LitI ''<ref'', WordB, Cap 1 (StarLazy (NoneOf ''>'')), Lit ''/'', Star (Sym js_ws), Lit ''>'']"

definition rTemplateRx :: rx where
  \<comment> \<open>\<open>/\{\{\s*r\s*(\|[\s\S]*?)\}\}/gi\<close>\<close>
  "rTemplateRx = Seqs [Lit ''{{'', Star (Sym js_ws), LitI ''r'', Star (Sym js_ws),
                       Cap 1 (Seq (Lit ''|'') (StarLazy AnyChar)), Lit ''}}'']"

definition add_full :: "TemplateMatch list \<Rightarrow> parse_state \<Rightarrow> js_match \<Rightarrow> parse_state" where
  \<comment> \<open>the body of the loop over the matches of \<open>refFull\<close>\<close>
  "add_full templates st m =
     (let idx = int (m_index m)
      in if inTemplateRange idx templates then st
         else
           (let attrs = grp_or_empty m 1;
                content = grp_or_empty m 2;
                name = extractAttr attrs ''name'';
                gname = extractAttr attrs ''group''
            in case getRef st name gname of
                 (st1, key) \<Rightarrow>
                   (let use = \<lparr>u_uid = ps_uid st1, u_name = name, u_group = gname, u_start = idx,
                               u_end = idx + int (length (m_text m)), u_kind = full,
                               u_content = Some content, u_rTemplateId = None\<rparr>
                    in st1\<lparr>ps_uid := ps_uid st1 + 1,
                           ps_refs := upd_ref key (\<lambda>r. r\<lparr>definitions := definitions r @ [use],
                                                            uses := uses r @ [use]\<rparr>) (ps_refs st1)\<rparr>)))"

definition add_self :: "TemplateMatch list \<Rightarrow> parse_state \<Rightarrow> js_match \<Rightarrow> parse_state" where
  \<comment> \<open>the body of the loop over the matches of \<open>refSelf\<close>\<close>
  "add_self templates st m =
     (let idx = int (m_index m)
      in if inTemplateRange idx templates then st
         else
           (let attrs = grp_or_empty m 1;
                name = extractAttr attrs ''name'';
                gname = extractAttr attrs ''group''
            in case getRef st name gname of
                 (st1, key) \<Rightarrow>
                   (let use = \<lparr>u_uid = ps_uid st1, u_name = name, u_group = gname, u_start = idx,
                               u_end = idx + int (length (m_text m)), u_kind = selfClosing,
                               u_content = None, u_rTemplateId = None\<rparr>
                    in st1\<lparr>ps_uid := ps_uid st1 + 1,
                           ps_refs := upd_ref key (\<lambda>r. r\<lparr>uses := uses r @ [use]\<rparr>) (ps_refs st1)\<rparr>)))"

definition add_r_name :: "int \<Rightarrow> int \<Rightarrow> nat \<Rightarrow> parse_state \<Rightarrow> RTemplateEntry \<Rightarrow> parse_state" where
  \<comment> \<open>one name of a chained template: a use of the reference of that name, without group\<close>
  "add_r_name idx e tplId st entry =
     (case getRef st (Some (e_value entry)) None of
        (st1, key) \<Rightarrow>
          (let use = \<lparr>u_uid = ps_uid st1, u_name = Some (e_value entry), u_group = None, u_start = idx,
                      u_end = e, u_kind = templateR, u_content = None, u_rTemplateId = Some tplId\<rparr>
           in st1\<lparr>ps_uid := ps_uid st1 + 1,
                  ps_refs := upd_ref key (\<lambda>r. r\<lparr>uses := uses r @ [use]\<rparr>) (ps_refs st1)\<rparr>))"

definition add_rTemplate :: "TemplateMatch list \<Rightarrow> parse_state \<Rightarrow> js_match \<Rightarrow> parse_state" where
  \<comment> \<open>the body of the loop over the matches of \<open>rTemplate\<close>\<close>
  "add_rTemplate templates st m =
     (let idx = int (m_index m)
      in if inTemplateRange idx templates then st
         else
           (let params = grp_or_empty m 1;
                ents = parseRTemplateEntries params;
                tplId = length (ps_rTemplates st);
                e = idx + int (length (m_text m));
                st1 = st\<lparr>ps_rTemplates := ps_rTemplates st @
                         [\<lparr>rt_id = tplId, rt_start = idx, rt_end = e, rt_entries = ents\<rparr>]\<rparr>
            in foldl (add_r_name idx e tplId) st1 (filter e_isName ents)))"

definition add_ldr :: "int \<Rightarrow> parse_state \<Rightarrow> js_match \<Rightarrow> parse_state" where
  \<comment> \<open>the body of the loop over the full tags inside a \<open>refs=\<close> parameter\<close>
  "add_ldr basePos st m =
     (let attrs = grp_or_empty m 1;
          content = grp_or_empty m 2;
          name = extractAttr attrs ''name'';
          gname = extractAttr attrs ''group''
      in case getRef st name gname of
           (st1, key) \<Rightarrow>
             (let posStart = basePos + int (m_index m);
                  use = \<lparr>u_uid = ps_uid st1, u_name = name, u_group = gname, u_start = posStart,
                         u_end = posStart + int (length (m_text m)), u_kind = full,
                         u_content = Some content, u_rTemplateId = None\<rparr>
              in st1\<lparr>ps_uid := ps_uid st1 + 1,
                     ps_refs := upd_ref key (\<lambda>r. r\<lparr>ldrDefinitions := ldrDefinitions r @ [use]\<rparr>) (ps_refs st1)\<rparr>))"

definition is_refs_param :: "TemplateParam \<Rightarrow> bool" where
  \<comment> \<open>\<open>p.name && p.name.toLowerCase() === 'refs'\<close>\<close>
  "is_refs_param p = (case p_name p of None \<Rightarrow> False | Some n \<Rightarrow> n \<noteq> [] \<and> toLowerCase n = ''refs'')"

definition add_template :: "parse_state \<Rightarrow> TemplateMatch \<Rightarrow> parse_state" where
  \<comment> \<open>the body of \<open>templates.forEach\<close>\<close>
  "add_template st tpl =
     (case find is_refs_param (t_params tpl) of
        None \<Rightarrow> st
      | Some refsParam \<Rightarrow>
          if p_value refsParam = [] then st
          else
            (let inner = p_value refsParam;
                 paramOffset = js_indexOf (t_content tpl) inner;
                 basePos = (if paramOffset \<ge> 0 then t_start tpl + paramOffset else t_start tpl)
             in foldl (add_ldr basePos) st (rx_all refFullRx inner)))"

record parse_ctx =
  refs :: "RefRecord list"
  templates :: "TemplateMatch list"
  rTemplates :: "RTemplate list"

definition parseWikitext :: "string \<Rightarrow> string list \<Rightarrow> parse_ctx" where
  "parseWikitext wikitext reflistNames =
     (let tpls = findTemplates wikitext reflistNames;
          st0 = \<lparr>ps_refs = [], ps_nameless = 0, ps_uid = 0, ps_rTemplates = []\<rparr>;
          st1 = foldl (add_full tpls) st0 (rx_all refFullRx wikitext);
          st2 = foldl (add_self tpls) st1 (rx_all refSelfRx wikitext);
          st3 = foldl (add_rTemplate tpls) st2 (rx_all rTemplateRx wikitext);
          st4 = foldl add_template st3 tpls
      in \<lparr>refs = ps_refs st4, templates = tpls, rTemplates = ps_rTemplates st4\<rparr>)"

section \<open>The transform engine: rename, dedupe, location\<close>

datatype LocationMode = keep | all_inline | all_ldr | minUsesForLdr int

text \<open>
  \<open>TransformOptions\<close>.  An option that is left out has the value the engine gives
  it: no entries, \<open>False\<close>, \<open>None\<close>.  The entries of \<open>renameMap\<close> and
  \<open>renameNameless\<close> are listed as \<open>Object.entries\<close> lists them.  \<open>minUsesForLdr\<close> is
  an integer here.
\<close>

record TransformOptions =
  o_renameMap :: "(string \<times> jsval) list"
  o_renameNameless :: "(string \<times> jsval) list"
  o_dedupe :: bool
  o_locationMode :: "LocationMode option"
  o_sortRefs :: bool
  o_useTemplateR :: bool
  o_reflistTemplates :: "string list"
  o_normalizeAll :: bool

definition no_options :: TransformOptions where
  \<comment> \<open>\<open>{}\<close>\<close>
  "no_options = \<lparr>o_renameMap = [], o_renameNameless = [], o_dedupe = False, o_locationMode = None,
                  o_sortRefs = False, o_useTemplateR = False, o_reflistTemplates = [],
                  o_normalizeAll = False\<rparr>"

definition DEFAULT_REFLIST_TEMPLATES :: "string list" where
  "DEFAULT_REFLIST_TEMPLATES = [''reflist'', ''references'']"

definition normalizeLocationMode :: "LocationMode option \<Rightarrow> LocationMode" where
  "normalizeLocationMode mode =
     (case mode of
        None \<Rightarrow> keep
      | Some (minUsesForLdr n) \<Rightarrow> if n \<ge> 1 then minUsesForLdr n else minUsesForLdr 2
      | Some m \<Rightarrow> m)"

definition nrm_step :: "js_object \<Rightarrow> string \<times> jsval \<Rightarrow> js_object" where
  \<comment> \<open>the body of \<open>Object.entries(rename).forEach(([k, v]) => ...)\<close>\<close>
  "nrm_step m kv =
     (if fst kv = [] then m
      else if snd kv = JUndefined then m
      else if snd kv = JStr (fst kv) then m
      else js_set m (fst kv) (snd kv))"

definition normalizeRenameMap :: "(string \<times> jsval) list \<Rightarrow> js_object" where
  "normalizeRenameMap rename = foldl nrm_step empty_object rename"

definition js_or :: "jsval \<Rightarrow> jsval \<Rightarrow> jsval" where
  \<comment> \<open>\<open>a || b\<close>\<close>
  "js_or a b = (if truthy a then a else b)"

definition rename_one :: "js_object \<Rightarrow> js_object \<Rightarrow> RefRecord \<Rightarrow> RefRecord \<times> string list" where
  \<comment> \<open>the body of \<open>refs.forEach\<close> in \<open>applyRenames\<close>: the record after it, and what it adds
      to \<open>appliedNameless\<close>\<close>
  "rename_one rename renameNameless ref =
     (if truthy (ref_name ref) then
        (let nxt = js_get rename (js_toString (ref_name ref))
         in if nxt = JNull then (ref\<lparr>ref_name := JNull\<rparr>, [])
            else if truthy nxt \<and> nxt \<noteq> ref_name ref then (ref\<lparr>ref_name := nxt\<rparr>, [])
            else (ref, []))
      else
        (let nxt = js_or (js_get renameNameless (ref_id ref)) (js_get renameNameless (ref_key ref))
         in if nxt = JNull then
              (let k = (if ref_key ref \<noteq> [] then ref_key ref
                        else if ref_id ref \<noteq> [] then ref_id ref
                        else refKey JNull (ref_group ref))
               in (ref\<lparr>ref_name := JNull, ref_key := k\<rparr>, [ref_id ref, k]))
            else if truthy nxt then
              (let k = refKey nxt (ref_group ref)
               in (ref\<lparr>ref_name := nxt, ref_key := k\<rparr>, [ref_id ref, k]))
            else (ref, [])))"

fun rename_pass :: "js_object \<Rightarrow> js_object \<Rightarrow> RefRecord list \<Rightarrow> RefRecord list \<times> string list" where
  "rename_pass rename renameNameless [] = ([], [])"
| "rename_pass rename renameNameless (ref # rs) =
     (case rename_one rename renameNameless ref of
        (ref', added) \<Rightarrow>
          (case rename_pass rename renameNameless rs of
             (rs', applied) \<Rightarrow> (ref' # rs', added @ applied)))"

fun fallback_pass :: "(string \<times> jsval) list \<Rightarrow> RefRecord list \<Rightarrow> RefRecord list" where
  \<comment> \<open>the fallback: the entries not yet applied go to the unnamed references in order;
      the entries still to hand out stand for \<open>remainingEntries\<close> from \<open>idx\<close> on\<close>
  "fallback_pass remaining [] = []"
| "fallback_pass [] (ref # rs) = ref # rs"
| "fallback_pass ((k, newName) # remaining) (ref # rs) =
     (if truthy (ref_name ref) then ref # fallback_pass ((k, newName) # remaining) rs
      else ref\<lparr>ref_name := newName, ref_key := refKey newName (ref_group ref)\<rparr> # fallback_pass remaining rs)"

definition applyRenames :: "RefRecord list \<Rightarrow> js_object \<Rightarrow> js_object \<Rightarrow> RefRecord list" where
  "applyRenames rs rename renameNameless =
     (case rename_pass rename renameNameless rs of
        (rs', appliedNameless) \<Rightarrow>
          fallback_pass (filter (\<lambda>(k, v). k \<notin> set appliedNameless) (own renameNameless)) rs')"

definition nrk_step :: "RefRecord list \<times> nat \<Rightarrow> RefRecord \<Rightarrow> RefRecord list \<times> nat" where
  \<comment> \<open>the body of the loop of \<open>normalizeRefKeys\<close>, on the new map \<open>next\<close> and the counter\<close>
  "nrk_step acc ref =
     (case acc of
        (nxt, namelessCounter) \<Rightarrow>
          (let fresh = \<not> truthy (ref_name ref) \<and> ref_key ref = [] \<and> ref_id ref = [];
               key = (if truthy (ref_name ref) then refKey (ref_name ref) (ref_group ref)
                      else if ref_key ref \<noteq> [] then ref_key ref
                      else if ref_id ref \<noteq> [] then ref_id ref
                      else ''__nameless_'' @ nat_toString namelessCounter);
               ref' = ref\<lparr>ref_key := key, ref_id := (if ref_id ref \<noteq> [] then ref_id ref else key)\<rparr>;
               cnt = (if fresh then namelessCounter + 1 else namelessCounter)
           in if find_ref nxt key \<noteq> None
              then (upd_ref key (\<lambda>existing. existing\<lparr>definitions := definitions existing @ definitions ref',
                                                       ldrDefinitions := ldrDefinitions existing @ ldrDefinitions ref',
                                                       uses := uses existing @ uses ref'\<rparr>) nxt, cnt)
              else (nxt @ [ref'], cnt)))"

definition normalizeRefKeys :: "RefRecord list \<Rightarrow> RefRecord list" where
  "normalizeRefKeys rs = fst (foldl nrk_step ([], 0) rs)"

definition has_body :: "RefUseInternal \<Rightarrow> bool" where
  \<comment> \<open>\<open>(d.content || '').trim().length > 0\<close>\<close>
  "has_body d = (js_trim (case u_content d of None \<Rightarrow> [] | Some c \<Rightarrow> c) \<noteq> [])"

definition firstContent :: "RefRecord \<Rightarrow> string option" where
  "firstContent ref =
     (case find has_body (definitions ref) of
        Some d \<Rightarrow> u_content d
      | None \<Rightarrow> (case find has_body (ldrDefinitions ref) of Some d \<Rightarrow> u_content d | None \<Rightarrow> None))"

definition normalizeContent :: "string \<Rightarrow> string" where
  \<comment> \<open>\<open>content.replace(/\s+/g, ' ').trim()\<close>\<close>
  "normalizeContent content = js_trim (rx_replace_all (Plus (Sym js_ws)) (\<lambda>m. '' '') content)"

record dedupe_state =
  d_refs :: "RefRecord list"
  d_byContent :: "(string \<times> string) list"
  d_changes :: "(jsval \<times> jsval) list"

definition dedupe_step :: "dedupe_state \<Rightarrow> string \<Rightarrow> dedupe_state" where
  \<comment> \<open>the body of the loop of \<open>applyDedupe\<close> for the record under a key;
      \<open>canonicalByContent\<close> maps a normalized content to the key of its record\<close>
  "dedupe_step st key =
     (case find_ref (d_refs st) key of
        None \<Rightarrow> st
      | Some ref \<Rightarrow>
          (case firstContent ref of
             None \<Rightarrow> st
           | Some content \<Rightarrow>
               if content = [] \<or> \<not> truthy (ref_name ref) then st
               else
                 (let norm = normalizeContent content;
                      existing = (case map_of (d_byContent st) norm of
                                    None \<Rightarrow> None
                                  | Some ek \<Rightarrow> find_ref (d_refs st) ek)
                  in case existing of
                       Some ex \<Rightarrow>
                         if truthy (ref_name ex) then
                           (let rs1 = upd_ref key (\<lambda>r. r\<lparr>canonical := Some (ref_key ex)\<rparr>) (d_refs st);
                                rs2 = (if definitions ex = [] \<and> definitions ref \<noteq> []
                                       then upd_ref (ref_key ex) (\<lambda>r. r\<lparr>definitions := definitions r @ definitions ref\<rparr>) rs1
                                       else rs1);
                                rs3 = (if ldrDefinitions ex = [] \<and> ldrDefinitions ref \<noteq> []
                                       then upd_ref (ref_key ex) (\<lambda>r. r\<lparr>ldrDefinitions := ldrDefinitions r @ ldrDefinitions ref\<rparr>) rs2
                                       else rs2)
                            in st\<lparr>d_refs := rs3, d_changes := d_changes st @ [(ref_name ref, ref_name ex)]\<rparr>)
                         else
                           st\<lparr>d_refs := upd_ref key (\<lambda>r. r\<lparr>canonical := Some key\<rparr>) (d_refs st),
                              d_byContent := (norm, key) # d_byContent st\<rparr>
                     | None \<Rightarrow>
                         st\<lparr>d_refs := upd_ref key (\<lambda>r. r\<lparr>canonical := Some key\<rparr>) (d_refs st),
                            d_byContent := (norm, key) # d_byContent st\<rparr>)))"

definition applyDedupe :: "RefRecord list \<Rightarrow> RefRecord list \<times> (jsval \<times> jsval) list" where
  \<comment> \<open>the records after the pass, and the list of \<open>{from, to}\<close> it returns\<close>
  "applyDedupe rs =
     (let st = foldl dedupe_step \<lparr>d_refs = rs, d_byContent = [], d_changes = []\<rparr> (map ref_key rs)
      in (d_refs st, d_changes st))"

definition canonical_of :: "RefRecord list \<Rightarrow> RefRecord \<Rightarrow> RefRecord" where
  \<comment> \<open>\<open>ref.canonical ?? ref\<close>\<close>
  "canonical_of rs ref =
     (case canonical ref of
        None \<Rightarrow> ref
      | Some k \<Rightarrow> (case find_ref rs k of Some c \<Rightarrow> c | None \<Rightarrow> ref))"

definition aggregateUses :: "RefRecord list \<Rightarrow> RefRecord \<Rightarrow> RefUseInternal list" where
  "aggregateUses rs c =
     sort_key u_start (concat (map uses (filter (\<lambda>ref. ref_key (canonical_of rs ref) = ref_key c) rs)))"

definition target_for :: "LocationMode \<Rightarrow> RefRecord list \<Rightarrow> RefRecord \<Rightarrow> Location" where
  \<comment> \<open>the chain of tests of \<open>assignLocations\<close> on a canonical record\<close>
  "target_for mode rs c =
     (if mode = keep then (if ldrDefinitions c \<noteq> [] then ldr else inline)
      else if \<not> truthy (ref_name c) then inline
      else case mode of
             all_inline \<Rightarrow> inline
           | all_ldr \<Rightarrow> ldr
           | minUsesForLdr threshold \<Rightarrow> if int (length (aggregateUses rs c)) \<ge> threshold then ldr else inline
           | keep \<Rightarrow> inline)"

definition assign_step :: "LocationMode \<Rightarrow> RefRecord list \<times> string list \<Rightarrow> string \<Rightarrow> RefRecord list \<times> string list" where
  \<comment> \<open>the body of the loop of \<open>assignLocations\<close>, on the records and the set \<open>processed\<close>\<close>
  "assign_step mode acc key =
     (case acc of
        (rs, processed) \<Rightarrow>
          (case find_ref rs key of
             None \<Rightarrow> (rs, processed)
           | Some ref \<Rightarrow>
               (let c = canonical_of rs ref
                in if ref_key c \<in> set processed then (rs, processed)
                   else (upd_ref (ref_key c) (\<lambda>r. r\<lparr>targetLocation := target_for mode rs c\<rparr>) rs,
                         ref_key c # processed))))"

definition assignLocations :: "RefRecord list \<Rightarrow> LocationMode \<Rightarrow> RefRecord list" where
  "assignLocations rs mode = fst (foldl (assign_step mode) (rs, []) (map ref_key rs))"

section \<open>Rendering\<close>

text \<open>
  The one way the engine can fail: a method of strings (\<open>replace\<close>) called on a name
  that is not a string.  A function that can fail answers \<open>Inl TypeError\<close>.
\<close>

datatype js_error = TypeError

fun foldl_err :: "('s \<Rightarrow> 'a \<Rightarrow> js_error + 's) \<Rightarrow> 's \<Rightarrow> 'a list \<Rightarrow> js_error + 's" where
  \<comment> \<open>a loop whose body can throw\<close>
  "foldl_err f st [] = Inr st"
| "foldl_err f st (x # xs) = (case f st x of Inl e \<Rightarrow> Inl e | Inr st' \<Rightarrow> foldl_err f st' xs)"

fun map_err :: "('a \<Rightarrow> js_error + 'b) \<Rightarrow> 'a list \<Rightarrow> js_error + 'b list" where
  "map_err f [] = Inr []"
| "map_err f (x # xs) =
     (case f x of Inl e \<Rightarrow> Inl e
      | Inr y \<Rightarrow> (case map_err f xs of Inl e \<Rightarrow> Inl e | Inr ys \<Rightarrow> Inr (y # ys)))"

definition escapeAttr_string :: "string \<Rightarrow> string" where
  \<comment> \<open>\<open>value.replace(/"/g, '&quot;')\<close>\<close>
  "escapeAttr_string v = concat (map (\<lambda>c. if c = dq then ''&quot;'' else [c]) v)"

fun escapeAttr :: "jsval \<Rightarrow> js_error + string" where
  "escapeAttr (JStr v) = Inr (escapeAttr_string v)"
| "escapeAttr v = Inl TypeError"

definition nonempty :: "string option \<Rightarrow> bool" where
  \<comment> \<open>the truth of a value that is a string or \<open>null\<close>\<close>
  "nonempty v = (case v of None \<Rightarrow> False | Some s \<Rightarrow> s \<noteq> [])"

definition renderRefSelf :: "jsval \<Rightarrow> string option \<Rightarrow> bool \<Rightarrow> js_error + string" where
  "renderRefSelf name gname preferTemplateR =
     (if \<not> truthy name then Inr ''<ref />''
      else if preferTemplateR then
        Inr (''{{r|'' @ js_join ''|'' ([js_toString name] @
               (if nonempty gname then [''group='' @ escapeAttr_string (the gname)] else [])) @ ''}}'')
      else
        (case escapeAttr name of
           Inl e \<Rightarrow> Inl e
         | Inr n \<Rightarrow>
             Inr (''<ref '' @ js_join '' '' ([''name='' @ [dq] @ n @ [dq]] @
                    (if nonempty gname then [''group='' @ [dq] @ escapeAttr_string (the gname) @ [dq]] else [])) @ '' />'')))"

definition normalizeContentBlock :: "string \<Rightarrow> string" where
  "normalizeContentBlock content =
     js_trim
       (rx_replace_all (Seqs [Sym (\<lambda>c. c = CHR 0x0A), Sym (\<lambda>c. c = CHR 0x0A), Plus (Sym (\<lambda>c. c = CHR 0x0A))])
          (\<lambda>m. [CHR 0x0A, CHR 0x0A])
          (rx_replace_all (Seq (Plus (Sym (\<lambda>c. c = CHR '' '' \<or> c = CHR 0x09))) (Sym (\<lambda>c. c = CHR 0x0A)))
             (\<lambda>m. [CHR 0x0A]) content))"

definition citeRx :: rx where
  \<comment> \<open>\<open>/\{\{\s*([Cc]ite\s+[^\|\}]+)\s*\|([\s\S]*?)\}\}/g\<close>\<close>
  "citeRx = Seqs [Lit ''{{'', Star (Sym js_ws),
                  Cap 1 (Seqs [Sym (\<lambda>c. c = CHR ''C'' \<or> c = CHR ''c''), Lit ''ite'', Plus (Sym js_ws), Plus (NoneOf ''|}'')]),
                  Star (Sym js_ws), Lit ''|'', Cap 2 (StarLazy AnyChar), Lit ''}}'']"

definition cite_priority :: "string list" where
  "cite_priority = [''title'', ''url'', ''website'', ''language'', ''dead-url'', ''archive-url'', ''archive-date'', ''access-date'']"

definition findParamIndex :: "TemplateParam list \<Rightarrow> string \<Rightarrow> nat option" where
  \<comment> \<open>\<open>None\<close> is \<open>-1\<close>\<close>
  "findParamIndex params k =
     (let lower = toLowerCase k
      in find (\<lambda>i. case p_name (params ! i) of
                       None \<Rightarrow> False
                     | Some pn \<Rightarrow>
                         (let n = toLowerCase (js_trim pn)
                          in n \<noteq> [] \<and> (n = lower \<or> (lower = ''dead-url'' \<and> n = ''deadurl''))))
           (upt 0 (length params)))"

definition cite_rewrite :: "js_match \<Rightarrow> string" where
  \<comment> \<open>the callback of the replacement in \<open>normalizeRefBody\<close>\<close>
  "cite_rewrite m =
     (let name = grp_or_empty m 1;
          params = parseTemplateParams (''|'' @ grp_or_empty m 2)
      in if params = [] then m_text m
         else
           (let first = concat (map (\<lambda>k. case findParamIndex params k of None \<Rightarrow> [] | Some i \<Rightarrow> [i]) cite_priority);
                ordered = map (\<lambda>i. params ! i) (first @ filter (\<lambda>i. i \<notin> set first) (upt 0 (length params)));
                parts = map (\<lambda>p. (let v = js_trim (p_value p);
                                        n = (case p_name p of None \<Rightarrow> [] | Some pn \<Rightarrow> js_trim pn)
                                    in if n \<noteq> [] then n @ ''='' @ v else v)) ordered
            in ''{{'' @ js_trim name @ (if parts \<noteq> [] then '' |'' @ js_join '' |'' parts else []) @ ''}}''))"

definition normalizeRefBody :: "string \<Rightarrow> string" where
  "normalizeRefBody content = rx_replace_all citeRx cite_rewrite (normalizeContentBlock content)"

definition renderRefTag :: "jsval \<Rightarrow> string option \<Rightarrow> string \<Rightarrow> bool \<Rightarrow> js_error + string" where
  "renderRefTag name gname content norm =
     (case (if truthy name then escapeAttr name else Inr []) of
        Inl e \<Rightarrow> Inl e
      | Inr n \<Rightarrow>
          (let attrs = (if truthy name then [''name='' @ [dq] @ n @ [dq]] else []) @
                       (if nonempty gname then [''group='' @ [dq] @ escapeAttr_string (the gname) @ [dq]] else []);
               inner = (if norm then normalizeRefBody content else normalizeContentBlock content)
           in Inr (''<ref'' @ (if attrs \<noteq> [] then '' '' @ js_join '' '' attrs else []) @ ''>'' @ inner @ ''</ref>'')))"

definition renderTemplate :: "string \<Rightarrow> TemplateParam list \<Rightarrow> string" where
  "renderTemplate name params =
     (let parts = map (\<lambda>p. if nonempty (p_name p) then the (p_name p) @ ''='' @ p_value p else p_value p) params
      in ''{{'' @ name @ (if parts \<noteq> [] then ''|'' @ js_join ''|'' parts else []) @ ''}}'')"

record LdrEntry =
  l_name :: jsval
  l_group :: "string option"
  l_content :: string

fun insert_by :: "('a \<Rightarrow> 'a \<Rightarrow> int) \<Rightarrow> 'a \<Rightarrow> 'a list \<Rightarrow> 'a list" where
  "insert_by cmp x [] = [x]"
| "insert_by cmp x (y # ys) = (if cmp x y \<le> 0 then x # y # ys else y # insert_by cmp x ys)"

definition sort_by :: "('a \<Rightarrow> 'a \<Rightarrow> int) \<Rightarrow> 'a list \<Rightarrow> 'a list" where
  \<comment> \<open>the stable sort under a comparator\<close>
  "sort_by cmp xs = foldr (insert_by cmp) xs []"

definition renderRefsValue :: "(string \<Rightarrow> string \<Rightarrow> int) \<Rightarrow> LdrEntry list \<Rightarrow> bool \<Rightarrow> js_error + string" where
  \<comment> \<open>\<open>localeCompare\<close> with the options \<open>sensitivity: 'base', numeric: true\<close> is the
      platform's collation; it is a parameter.  Where a name is not a string the
      comparator and \<open>renderRefTag\<close> both throw.\<close>
  "renderRefsValue localeCompare ents srt =
     (let sorted = (if srt then sort_by (\<lambda>a b. localeCompare (js_toString (l_name a)) (js_toString (l_name b))) ents
                    else ents)
      in case map_err (\<lambda>e. renderRefTag (l_name e) (l_group e) (l_content e) False) sorted of
           Inl e \<Rightarrow> Inl e
         | Inr tags \<Rightarrow> Inr ([CHR 0x0A] @ js_join [CHR 0x0A] tags @ [CHR 0x0A]))"

definition updateReflistTemplate ::
  "(string \<Rightarrow> string \<Rightarrow> int) \<Rightarrow> TemplateMatch \<Rightarrow> LdrEntry list \<Rightarrow> bool \<Rightarrow> js_error + string" where
  "updateReflistTemplate localeCompare tpl ldrEntries srt =
     (case renderRefsValue localeCompare ldrEntries srt of
        Inl e \<Rightarrow> Inl e
      | Inr refsValue \<Rightarrow>
          if ldrEntries = [] then Inr (renderTemplate (t_name tpl) (filter (\<lambda>p. \<not> is_refs_param p) (t_params tpl)))
          else if list_ex is_refs_param (t_params tpl)
          then Inr (renderTemplate (t_name tpl)
                      (map (\<lambda>p. if is_refs_param p then p\<lparr>p_value := refsValue\<rparr> else p) (t_params tpl)))
          else Inr (renderTemplate (t_name tpl) (t_params tpl @ [\<lparr>p_name = Some ''refs'', p_value = refsValue\<rparr>])))"

definition buildStandaloneReflist :: "(string \<Rightarrow> string \<Rightarrow> int) \<Rightarrow> LdrEntry list \<Rightarrow> bool \<Rightarrow> js_error + string" where
  "buildStandaloneReflist localeCompare ents srt =
     (case renderRefsValue localeCompare ents srt of
        Inl e \<Rightarrow> Inl e
      | Inr refsValue \<Rightarrow> Inr ([CHR 0x0A] @ ''{{reflist|refs='' @ refsValue @ ''}}''))"

definition buildLdrEntries :: "RefRecord list \<Rightarrow> LdrEntry list" where
  "buildLdrEntries rs =
     concat (map (\<lambda>ref.
        (let c = canonical_of rs ref
         in if ref_key c \<noteq> ref_key ref then []
            else if targetLocation c \<noteq> ldr then []
            else if \<not> truthy (ref_name c) then []
            else (case firstContent c of
                    None \<Rightarrow> []
                  | Some content \<Rightarrow> if content = [] then []
                                    else [\<lparr>l_name = ref_name c, l_group = ref_group c, l_content = content\<rparr>]))) rs)"

section \<open>The shorthand renderer\<close>

definition strip_trailing_digits :: "string \<Rightarrow> string" where
  \<comment> \<open>\<open>key.replace(/\d+$/, '')\<close>\<close>
  "strip_trailing_digits k = rx_replace_first (Seqs [Plus (Sym js_digit), Eol]) [] k"

fun name_index_map :: "RTemplateEntry list \<Rightarrow> (nat \<times> nat) list \<Rightarrow> (nat \<times> nat) list" where
  \<comment> \<open>\<open>nameIndexMap\<close>: the name indices in order of first appearance, numbered from 1\<close>
  "name_index_map [] acc = acc"
| "name_index_map (e # es) acc =
     (if e_isName e \<and> map_of acc (e_index e) = None
      then name_index_map es (acc @ [(e_index e, length acc + 1)])
      else name_index_map es acc)"

definition renumbered_key :: "bool \<Rightarrow> string \<Rightarrow> nat \<Rightarrow> string" where
  \<comment> \<open>the key a parameter is written under\<close>
  "renumbered_key renumber k targetIndex =
     (if renumber then
        (let base = strip_trailing_digits k
         in if length base \<noteq> length k then base @ (if targetIndex > 1 then nat_toString targetIndex else [])
            else base)
      else k)"

definition rt_part :: "bool \<Rightarrow> (nat \<times> nat) list \<Rightarrow> RTemplateEntry \<Rightarrow> string list" where
  \<comment> \<open>the body of the second loop of \<open>buildRTemplateString\<close>: what an entry adds to \<open>parts\<close>\<close>
  "rt_part renumber nameIndexMap e =
     (let targetIndex =
            (if renumber then
               (case map_of nameIndexMap (e_index e) of
                  Some i \<Rightarrow> i
                | None \<Rightarrow> if nameIndexMap \<noteq> [] then Max (set (map snd nameIndexMap)) else e_index e)
             else e_index e)
      in if e_isName e then
           (case e_key e of
              Some k \<Rightarrow> if k \<noteq> [] then [renumbered_key renumber k targetIndex @ ''='' @ e_value e] else [e_value e]
            | None \<Rightarrow> [e_value e])
         else
           (let explicitKey = (case e_key e of
                                 Some k \<Rightarrow> if k \<noteq> [] then renumbered_key renumber k targetIndex else []
                               | None \<Rightarrow> [])
            in if explicitKey \<noteq> [] then [explicitKey @ ''='' @ e_value e]
               else
                 (let idxSuffix = (if targetIndex > 1 then nat_toString targetIndex else [])
                  in case e_kind e of
                       KGroup \<Rightarrow> [''group'' @ ''='' @ e_value e]
                     | KPage \<Rightarrow> [''p'' @ idxSuffix @ ''='' @ e_value e]
                     | KPages \<Rightarrow> [''pp'' @ idxSuffix @ ''='' @ e_value e]
                     | KAt \<Rightarrow> [''loc'' @ idxSuffix @ ''='' @ e_value e]
                     | _ \<Rightarrow> [])))"

definition buildRTemplateString :: "RTemplateEntry list \<Rightarrow> bool \<Rightarrow> string option" where
  \<comment> \<open>every caller passes \<open>undefined\<close> for \<open>renameLookup\<close>, so the values are written as
      they stand; \<open>None\<close> is \<open>null\<close>\<close>
  "buildRTemplateString ents renumber =
     (if \<not> list_ex e_isName ents then None
      else
        (let nameIndexMap = (if renumber then name_index_map ents [] else [])
         in Some (''{{r|'' @ js_join ''|'' (concat (map (rt_part renumber nameIndexMap) ents)) @ ''}}'')))"

definition resolveName :: "RefRecord list \<Rightarrow> js_object \<Rightarrow> string \<Rightarrow> jsval" where
  \<comment> \<open>the closure \<open>resolveName\<close> of \<open>renderRTemplate\<close>, with \<open>renameLookup\<close> the lookup
      in the rename map\<close>
  "resolveName rs rename raw =
     (let ref = find_ref rs (refKey (JStr raw) None);
          mapped = js_get rename raw
      in if mapped \<noteq> JUndefined then mapped
         else (case ref of
                 None \<Rightarrow> JStr raw
               | Some r \<Rightarrow> nullish_or (ref_name (canonical_of rs r)) JNull))"

definition rename_entry :: "RefRecord list \<Rightarrow> js_object \<Rightarrow> RTemplateEntry \<Rightarrow> RTemplateEntry" where
  \<comment> \<open>\<open>{ ...e, value: next }\<close> for a name entry whose name resolves; the new value is only
      ever printed, and is kept as it prints\<close>
  "rename_entry rs rename e =
     (if \<not> e_isName e then e
      else (let nxt = resolveName rs rename (e_value e)
            in if truthy nxt then e\<lparr>e_value := js_toString nxt\<rparr> else e))"

record rr_state =
  rr_segments :: "string list"
  rr_used :: "nat list"
  rr_pending :: "RTemplateEntry list"

definition flushPending :: "rr_state \<Rightarrow> rr_state" where
  "flushPending st =
     (if rr_pending st = [] then st
      else (case buildRTemplateString (rr_pending st) True of
              Some tplStr \<Rightarrow> st\<lparr>rr_segments := rr_segments st @ (if tplStr \<noteq> [] then [tplStr] else []), rr_pending := []\<rparr>
            | None \<Rightarrow> st\<lparr>rr_pending := []\<rparr>))"

definition find_value :: "RKind \<Rightarrow> nat \<Rightarrow> RTemplateEntry list \<Rightarrow> string option" where
  \<comment> \<open>\<open>entries.find((r) => r.kind === kind && r.index === idxNum)?.value\<close>\<close>
  "find_value k idxNum ents = map_option e_value (find (\<lambda>r. e_kind r = k \<and> e_index r = idxNum) ents)"

definition rr_step ::
  "RefRecord list \<Rightarrow> js_object \<Rightarrow> (nat \<times> RTemplateEntry) list \<Rightarrow> rr_state \<Rightarrow> nat \<times> RTemplateEntry \<Rightarrow> js_error + rr_state" where
  \<comment> \<open>the body of \<open>nameEntries.forEach\<close>; an entry goes with its place in \<open>tpl.entries\<close>,
      which stands for the object in the set \<open>used\<close>\<close>
  "rr_step rs rename ents st ie =
     (case ie of
        (i, e) \<Rightarrow>
          (let idxNum = e_index e;
               relevant = filter (\<lambda>(j, x). j \<notin> set (rr_used st)) (filter (\<lambda>(j, x). e_index x = idxNum) ents);
               withoutName = filter (\<lambda>(j, x). j \<noteq> i) relevant;
               orderedRelevant = (i, e) # withoutName;
               mappedRelevant = map (\<lambda>(j, x). rename_entry rs rename x) relevant;
               hasUnsupported = list_ex (\<lambda>x. e_kind x = KOther) mappedRelevant;
               target = resolveName rs rename (e_value e)
           in if \<not> truthy target then Inr st
              else if hasUnsupported then
                Inr (st\<lparr>rr_pending := rr_pending st @ map (\<lambda>(j, x). rename_entry rs rename x) orderedRelevant,
                        rr_used := rr_used st @ map fst orderedRelevant\<rparr>)
              else
                (let st1 = flushPending st;
                     gname = find_value KGroup idxNum mappedRelevant;
                     page = find_value KPage idxNum mappedRelevant;
                     pagesEntry = find (\<lambda>r. e_kind r = KPages \<and> e_index r = idxNum) mappedRelevant;
                     pages = map_option e_value pagesEntry;
                     pagesLabel = (case pagesEntry of
                                     Some pe \<Rightarrow> if nonempty (e_key pe) \<and> startsWith (toLowerCase (the (e_key pe))) ''pages''
                                                then ''pages'' else ''pp''
                                   | None \<Rightarrow> ''pp'');
                     at = find_value KAt idxNum mappedRelevant
                 in case renderRefSelf target gname False of
                      Inl err \<Rightarrow> Inl err
                    | Inr chunk \<Rightarrow>
                        (let rpParts = (if nonempty page then [''p='' @ the page] else []) @
                                       (if nonempty pages then [pagesLabel @ ''='' @ the pages] else []) @
                                       (if nonempty at then [''at='' @ the at] else []);
                             chunk' = (if rpParts \<noteq> [] then chunk @ ''{{rp|'' @ js_join ''|'' rpParts @ ''}}'' else chunk)
                         in Inr (st1\<lparr>rr_segments := rr_segments st1 @ [chunk'],
                                     rr_used := rr_used st1 @ map fst orderedRelevant\<rparr>)))))"

definition renderRTemplate :: "RTemplate \<Rightarrow> RefRecord list \<Rightarrow> bool \<Rightarrow> js_object \<Rightarrow> js_error + string option" where
  \<comment> \<open>\<open>Inr None\<close> is the answer \<open>null\<close>\<close>
  "renderRTemplate tpl rs preferTemplateR rename =
     (let ents = rt_entries tpl;
          nameEntries = filter (\<lambda>(i, e). e_isName e) (zip (upt 0 (length ents)) ents)
      in if nameEntries = [] then Inr None
         else if preferTemplateR then Inr (buildRTemplateString (map (rename_entry rs rename) ents) False)
         else
           (case foldl_err (rr_step rs rename (zip (upt 0 (length ents)) ents))
                   \<lparr>rr_segments = [], rr_used = [], rr_pending = []\<rparr> nameEntries of
              Inl err \<Rightarrow> Inl err
            | Inr st \<Rightarrow>
                (let st1 = (if rr_pending st \<noteq> []
                            then st\<lparr>rr_pending := rr_pending st @
                                      map snd (filter (\<lambda>(j, x). j \<notin> set (rr_used st)) (zip (upt 0 (length ents)) ents))\<rparr>
                            else st);
                     st2 = flushPending st1
                 in Inr (if rr_segments st2 \<noteq> [] then Some (js_join '' '' (rr_segments st2)) else None))))"

section \<open>Replacement planning\<close>

record plan_opts =
  po_useTemplateR :: bool
  po_sortRefs :: bool
  po_normalizeAll :: bool
  po_locationModeKeep :: bool
  po_rename :: js_object

record plan_acc =
  pa_replacements :: "Replacement list"
  pa_movedInline :: "jsval list"
  pa_movedLdr :: "jsval list"

definition is_templateR_use :: "RefUseInternal \<Rightarrow> bool" where
  \<comment> \<open>\<open>use.kind === 'templateR' && typeof use.rTemplateId === 'number'\<close>\<close>
  "is_templateR_use use = (u_kind use = templateR \<and> u_rTemplateId use \<noteq> None)"

definition canonicalContent_of :: "RefRecord \<Rightarrow> string" where
  \<comment> \<open>\<open>firstContent(canonical) || ''\<close>\<close>
  "canonicalContent_of c = (case firstContent c of None \<Rightarrow> [] | Some t \<Rightarrow> t)"

definition targetName_of :: "RefRecord \<Rightarrow> RefRecord \<Rightarrow> jsval" where
  \<comment> \<open>\<open>canonical.name ?? ref.name\<close>\<close>
  "targetName_of c ref = nullish_or (ref_name c) (ref_name ref)"

definition keeps_use :: "plan_opts \<Rightarrow> RefRecord \<Rightarrow> RefRecord \<Rightarrow> RefUseInternal \<Rightarrow> bool" where
  \<comment> \<open>the test under which the planner leaves a use alone\<close>
  "keeps_use opts ref c use =
     (po_locationModeKeep opts \<and> \<not> po_useTemplateR opts \<and> \<not> po_normalizeAll opts \<and>
      targetName_of c ref = of_opt (u_name use) \<and>
      ref_group ref = u_group use \<and>
      ((u_kind use = full \<and> Some (canonicalContent_of c) = u_content use) \<or> u_kind use \<noteq> full))"

definition plan_use :: "plan_opts \<Rightarrow> RefRecord \<Rightarrow> RefRecord \<Rightarrow> plan_acc \<Rightarrow> nat \<times> RefUseInternal \<Rightarrow> js_error + plan_acc" where
  \<comment> \<open>the body of \<open>ref.uses.forEach((use, useIdx) => ...)\<close>\<close>
  "plan_use opts ref c acc iu =
     (case iu of
        (useIdx, use) \<Rightarrow>
          if is_templateR_use use then Inr acc
          else if keeps_use opts ref c use then Inr acc
          else
            (let targetName = targetName_of c ref;
                 isDefinition = (u_uid use \<in> u_uid ` set (definitions ref));
                 first = (targetLocation c = inline \<and> ref_key c = ref_key ref \<and> useIdx = 0 \<and> canonicalContent_of c \<noteq> [])
             in case (if first then renderRefTag targetName (ref_group ref) (canonicalContent_of c) (po_normalizeAll opts)
                      else renderRefSelf targetName (ref_group ref) (po_useTemplateR opts)) of
                  Inl e \<Rightarrow> Inl e
                | Inr rendered \<Rightarrow>
                    Inr \<lparr>pa_replacements = pa_replacements acc @ [\<lparr>r_start = u_start use, r_end = u_end use, r_text = rendered\<rparr>],
                         pa_movedInline = pa_movedInline acc @ (if first \<and> truthy targetName then [targetName] else []),
                         pa_movedLdr = pa_movedLdr acc @
                            (if isDefinition \<and> targetLocation c = ldr \<and> truthy targetName then [targetName] else [])\<rparr>))"

definition plan_ldr_def :: "plan_opts \<Rightarrow> RefRecord \<Rightarrow> RefRecord \<Rightarrow> plan_acc \<Rightarrow> RefUseInternal \<Rightarrow> js_error + plan_acc" where
  \<comment> \<open>the body of \<open>ref.ldrDefinitions.forEach\<close>, run under the policy \<open>keep\<close>\<close>
  "plan_ldr_def opts ref c acc d =
     (let targetName = targetName_of c ref;
          content = (case u_content d of None \<Rightarrow> [] | Some t \<Rightarrow> t);
          targetGroup = (case u_group d of None \<Rightarrow> ref_group ref | Some g \<Rightarrow> Some g)
      in if \<not> po_useTemplateR opts \<and> \<not> po_normalizeAll opts \<and> targetName = of_opt (u_name d) \<and> targetGroup = u_group d
         then Inr acc
         else
           (case (if content \<noteq> [] then renderRefTag targetName targetGroup content (po_normalizeAll opts)
                  else renderRefSelf targetName targetGroup (po_useTemplateR opts)) of
              Inl e \<Rightarrow> Inl e
            | Inr rendered \<Rightarrow>
                Inr (acc\<lparr>pa_replacements := pa_replacements acc @ [\<lparr>r_start = u_start d, r_end = u_end d, r_text = rendered\<rparr>],
                         pa_movedLdr := pa_movedLdr acc @ (if truthy targetName then [targetName] else [])\<rparr>)))"

definition plan_ref :: "plan_opts \<Rightarrow> RefRecord list \<Rightarrow> plan_acc \<Rightarrow> RefRecord \<Rightarrow> js_error + plan_acc" where
  \<comment> \<open>the body of the loop over the records\<close>
  "plan_ref opts rs acc ref =
     (let c = canonical_of rs ref
      in case foldl_err (plan_use opts ref c) acc (zip (upt 0 (length (uses ref))) (uses ref)) of
           Inl e \<Rightarrow> Inl e
         | Inr acc1 \<Rightarrow>
             if po_locationModeKeep opts \<and> ldrDefinitions ref \<noteq> []
             then foldl_err (plan_ldr_def opts ref c) acc1 (ldrDefinitions ref)
             else Inr acc1)"

definition plan_rTemplate :: "plan_opts \<Rightarrow> RefRecord list \<Rightarrow> plan_acc \<Rightarrow> RTemplate \<Rightarrow> js_error + plan_acc" where
  \<comment> \<open>the body of \<open>ctx.rTemplates.forEach\<close>\<close>
  "plan_rTemplate opts rs acc tpl =
     (case renderRTemplate tpl rs (po_useTemplateR opts) (po_rename opts) of
        Inl e \<Rightarrow> Inl e
      | Inr None \<Rightarrow> Inr acc
      | Inr (Some rendered) \<Rightarrow>
          Inr (acc\<lparr>pa_replacements := pa_replacements acc @ [\<lparr>r_start = rt_start tpl, r_end = rt_end tpl, r_text = rendered\<rparr>]\<rparr>))"

definition MAX_SAFE_INTEGER :: int where
  "MAX_SAFE_INTEGER = 9007199254740991"

definition plan_template ::
  "(string \<Rightarrow> string \<Rightarrow> int) \<Rightarrow> plan_opts \<Rightarrow> LdrEntry list \<Rightarrow> plan_acc \<Rightarrow> TemplateMatch \<Rightarrow> js_error + plan_acc" where
  \<comment> \<open>the body of \<open>ctx.templates.forEach\<close> in the rebuild of the lists\<close>
  "plan_template localeCompare opts ldrEntries acc tpl =
     (case updateReflistTemplate localeCompare tpl ldrEntries (po_sortRefs opts) of
        Inl e \<Rightarrow> Inl e
      | Inr updated \<Rightarrow>
          if updated \<noteq> t_content tpl
          then Inr (acc\<lparr>pa_replacements := pa_replacements acc @ [\<lparr>r_start = t_start tpl, r_end = t_end tpl, r_text = updated\<rparr>]\<rparr>)
          else Inr acc)"

definition plan_lists :: "(string \<Rightarrow> string \<Rightarrow> int) \<Rightarrow> plan_opts \<Rightarrow> parse_ctx \<Rightarrow> plan_acc \<Rightarrow> js_error + plan_acc" where
  \<comment> \<open>the block \<open>if (!opts.locationModeKeep) { ... }\<close>\<close>
  "plan_lists localeCompare opts ctx acc =
     (if po_locationModeKeep opts then Inr acc
      else
        (let ldrEntries = buildLdrEntries (refs ctx)
         in case foldl_err (plan_template localeCompare opts ldrEntries) acc (templates ctx) of
              Inl e \<Rightarrow> Inl e
            | Inr acc1 \<Rightarrow>
                if ldrEntries \<noteq> [] \<and> templates ctx = [] then
                  (case buildStandaloneReflist localeCompare ldrEntries (po_sortRefs opts) of
                     Inl e \<Rightarrow> Inl e
                   | Inr appendText \<Rightarrow>
                       Inr (acc1\<lparr>pa_replacements := pa_replacements acc1 @
                              [\<lparr>r_start = MAX_SAFE_INTEGER, r_end = MAX_SAFE_INTEGER, r_text = appendText\<rparr>]\<rparr>))
                else Inr acc1))"

definition buildReplacementPlan :: "(string \<Rightarrow> string \<Rightarrow> int) \<Rightarrow> parse_ctx \<Rightarrow> plan_opts \<Rightarrow> js_error + plan_acc" where
  \<comment> \<open>the answer holds \<open>replacements\<close> (collapsed), \<open>movedInline\<close> and \<open>movedLdr\<close>\<close>
  "buildReplacementPlan localeCompare ctx opts =
     (case foldl_err (plan_rTemplate opts (refs ctx)) \<lparr>pa_replacements = [], pa_movedInline = [], pa_movedLdr = []\<rparr> (rTemplates ctx) of
        Inl e \<Rightarrow> Inl e
      | Inr acc1 \<Rightarrow>
          (case foldl_err (plan_ref opts (refs ctx)) acc1 (refs ctx) of
             Inl e \<Rightarrow> Inl e
           | Inr acc2 \<Rightarrow>
               (case plan_lists localeCompare opts ctx acc2 of
                  Inl e \<Rightarrow> Inl e
                | Inr acc3 \<Rightarrow> Inr (acc3\<lparr>pa_replacements := collapseReplacements (pa_replacements acc3)\<rparr>))))"

section \<open>The shorthand normalizer: collapse\<close>

definition refTokRx :: rx where
  \<comment> \<open>\<open><ref\b[^>]*\/>\<close>\<close>
  "refTokRx = Seqs [LitI ''<ref'', WordB, Star (NoneOf ''>''), Lit ''/>'']"

definition rTokRx :: rx where
  \<comment> \<open>\<open>\{\{r\|[^}]+\}\}\<close>\<close>
  "rTokRx = Seqs [LitI ''{{r|'', Plus (NoneOf ''}''), Lit ''}}'']"

definition rpTokRx :: rx where
  \<comment> \<open>\<open>\{\{rp\|[^}]+\}\}\<close>\<close>
  "rpTokRx = Seqs [LitI ''{{rp|'', Plus (NoneOf ''}''), Lit ''}}'']"

definition chainRx :: rx where
  \<comment> \<open>\<open>chainRegex\<close>\<close>
  "chainRx = Plus (Alt (Seqs [refTokRx, Star (Sym js_ws), Opt (Seq rpTokRx (Star (Sym js_ws)))])
                       (Seqs [rTokRx, Star (Sym js_ws), Opt (Seq rpTokRx (Star (Sym js_ws)))]))"

datatype tok_type = TRef | TR | TRp

record token =
  tk_type :: tok_type
  tk_raw :: string

definition tokenize :: "string \<Rightarrow> token list" where
  \<comment> \<open>the pattern has the flag \<open>i\<close>, the tests on \<open>raw\<close> have not\<close>
  "tokenize block =
     map (\<lambda>m. \<lparr>tk_type = (if startsWith (m_text m) ''<ref'' then TRef
                            else if startsWith (m_text m) ''{{r|'' then TR else TRp),
                 tk_raw = m_text m\<rparr>)
       (rx_all (Alt refTokRx (Alt rTokRx rpTokRx)) block)"

record rp_info =
  rp_page :: "string option"
  rp_pages :: "string option"
  rp_at :: "string option"
  rp_group :: "string option"
  rp_unsupported :: bool

definition rp_param :: "rp_info \<Rightarrow> string \<Rightarrow> rp_info" where
  \<comment> \<open>the body of \<open>params.forEach\<close> in \<open>parseRp\<close>\<close>
  "rp_param res p =
     (let eq = js_indexOf p ''='';
          key = (if eq \<ge> 0 then js_trim (js_slice p 0 eq) else []);
          val = (if eq \<ge> 0 then js_trim (js_slice_from p (eq + 1)) else p);
          norm = toLowerCase key
      in if key = [] \<or> norm = ''p'' \<or> norm = ''page'' then res\<lparr>rp_page := Some val\<rparr>
         else if norm = ''pp'' \<or> norm = ''pages'' then res\<lparr>rp_pages := Some val\<rparr>
         else if norm = ''at'' \<or> norm = ''location'' \<or> norm = ''loc'' then res\<lparr>rp_at := Some val\<rparr>
         else if norm = ''group'' \<or> norm = ''grp'' \<or> norm = ''g'' then res\<lparr>rp_group := Some val\<rparr>
         else res\<lparr>rp_unsupported := True\<rparr>)"

definition no_rp :: rp_info where
  \<comment> \<open>\<open>{ unsupported: false }\<close>\<close>
  "no_rp = \<lparr>rp_page = None, rp_pages = None, rp_at = None, rp_group = None, rp_unsupported = False\<rparr>"

definition parseRp :: "string \<Rightarrow> rp_info" where
  "parseRp raw =
     (let inner = rx_replace_first (Seqs [Lit ''}}'', Eol]) [] (rx_replace_first (Seqs [Bol, LitI ''{{rp|'']) [] raw)
      in foldl rp_param no_rp (splitTemplateParams inner))"

definition rEntriesFromR :: "string \<Rightarrow> RTemplateEntry list option" where
  "rEntriesFromR raw =
     (case rx_match (Seqs [Bol, LitI ''{{r|'', Cap 1 (Plus AnyChar), Lit ''}}'', Eol]) raw of
        None \<Rightarrow> None
      | Some m \<Rightarrow>
          (let ents = parseRTemplateEntries (grp_or_empty m 1);
               nameCount = length (filter e_isName ents)
           in if list_ex (\<lambda>e. e_kind e = KOther) ents then None
              else if nameCount = 0 then None
              else if list_ex (\<lambda>e. \<not> e_isName e \<and> e_index e > nameCount) ents then None
              else Some ents))"

record chain_item =
  ci_name :: string
  ci_group :: "string option"
  ci_page :: "string option"
  ci_pages :: "string option"
  ci_at :: "string option"

definition chain_params :: "bool \<Rightarrow> nat \<times> chain_item \<Rightarrow> string list" where
  \<comment> \<open>the body of \<open>items.forEach\<close> in \<open>buildChain\<close>; \<open>i\<close> counts from 1\<close>
  "chain_params hasDetail iit =
     (case iit of
        (i, it) \<Rightarrow>
          [ci_name it] @
          (if nonempty (ci_group it) then
             (if hasDetail then [(if i = 1 then ''group='' else ''group'' @ nat_toString i @ ''='') @ the (ci_group it)]
              else [''group='' @ the (ci_group it)])
           else []) @
          (if nonempty (ci_page it) then [(if i = 1 then ''p='' else ''p'' @ nat_toString i @ ''='') @ the (ci_page it)] else []) @
          (if nonempty (ci_pages it) then [(if i = 1 then ''pp='' else ''pp'' @ nat_toString i @ ''='') @ the (ci_pages it)] else []) @
          (if nonempty (ci_at it) then [(if i = 1 then ''loc='' else ''loc'' @ nat_toString i @ ''='') @ the (ci_at it)] else []))"

definition buildChain :: "chain_item list \<Rightarrow> string" where
  "buildChain items =
     (let hasDetail = list_ex (\<lambda>it. nonempty (ci_page it) \<or> nonempty (ci_pages it) \<or> nonempty (ci_at it)) items
      in ''{{r|'' @ js_join ''|'' (concat (map (chain_params hasDetail) (zip (upt 1 (Suc (length items))) items))) @ ''}}'')"

definition flushChain :: "chain_item list \<Rightarrow> string list \<Rightarrow> string list" where
  \<comment> \<open>\<open>parts\<close> after \<open>flushChain()\<close>; the chain is empty after it\<close>
  "flushChain chain parts = (if chain \<noteq> [] then parts @ [buildChain chain] else parts)"

definition opt_or :: "'a option \<Rightarrow> 'a option \<Rightarrow> 'a option" where
  \<comment> \<open>\<open>a ?? b\<close>\<close>
  "opt_or a b = (case a of None \<Rightarrow> b | Some v \<Rightarrow> Some v)"

definition next_rp :: "token list \<Rightarrow> token option" where
  \<comment> \<open>\<open>tokens[i + 1]?.type === 'rp' ? tokens[i + 1] : null\<close>\<close>
  "next_rp toks = (case toks of [] \<Rightarrow> None | t # _ \<Rightarrow> if tk_type t = TRp then Some t else None)"

definition after_rp :: "token list \<Rightarrow> token list" where
  \<comment> \<open>the tokens left after \<open>if (rpTok) i++\<close>\<close>
  "after_rp toks = (if next_rp toks \<noteq> None then tl toks else toks)"

definition rp_raw :: "token option \<Rightarrow> string" where
  \<comment> \<open>\<open>rpTok ? rpTok.raw : ''\<close>\<close>
  "rp_raw t = (case t of None \<Rightarrow> [] | Some r \<Rightarrow> tk_raw r)"

definition r_items :: "RTemplateEntry list \<Rightarrow> chain_item list" where
  \<comment> \<open>what the names of a shorthand template add to the chain\<close>
  "r_items ents =
     map (\<lambda>e. \<lparr>ci_name = e_value e,
                ci_group = find_value KGroup (e_index e) ents,
                ci_page = find_value KPage (e_index e) ents,
                ci_pages = find_value KPages (e_index e) ents,
                ci_at = find_value KAt (e_index e) ents\<rparr>) (filter e_isName ents)"

definition collapse_token :: "token \<Rightarrow> token option \<Rightarrow> chain_item list \<Rightarrow> string list \<Rightarrow> chain_item list \<times> string list" where
  \<comment> \<open>the body of the loop over the tokens, for a token and the companion \<open>rpTok\<close> it
      found: \<open>chain\<close> and \<open>parts\<close> after it\<close>
  "collapse_token tok rpTok chain parts =
     (if tk_type tok = TRef then
        (let name = extractAttr (tk_raw tok) ''name'';
             gname = extractAttr (tk_raw tok) ''group''
         in if \<not> nonempty name then ([], flushChain chain parts @ [tk_raw tok @ rp_raw rpTok])
            else
              (let rp = (case rpTok of None \<Rightarrow> no_rp | Some t \<Rightarrow> parseRp (tk_raw t))
               in if rp_unsupported rp then ([], flushChain chain parts @ [tk_raw tok @ rp_raw rpTok])
                  else (chain @ [\<lparr>ci_name = the name, ci_group = gname, ci_page = rp_page rp,
                                   ci_pages = rp_pages rp, ci_at = rp_at rp\<rparr>], parts)))
      else if tk_type tok = TR then
        (case rEntriesFromR (tk_raw tok) of
           None \<Rightarrow> ([], flushChain chain parts @ [tk_raw tok @ rp_raw rpTok])
         | Some ents \<Rightarrow>
             (let chain1 = chain @ r_items ents
              in case rpTok of
                   None \<Rightarrow> (chain1, parts)
                 | Some t \<Rightarrow>
                     (let rp = parseRp (tk_raw t)
                      in if \<not> rp_unsupported rp \<and> chain1 \<noteq> [] then
                           (let lst = last chain1;
                                lst' = lst\<lparr>ci_page := opt_or (rp_page rp) (ci_page lst),
                                           ci_pages := opt_or (rp_pages rp) (ci_pages lst),
                                           ci_at := opt_or (rp_at rp) (ci_at lst),
                                           ci_group := opt_or (rp_group rp) (ci_group lst)\<rparr>
                            in (butlast chain1 @ [lst'], parts))
                         else ([], flushChain chain1 parts @ [tk_raw tok @ tk_raw t]))))
      else ([], flushChain chain parts @ [tk_raw tok]))"

function collapse_tokens :: "token list \<Rightarrow> chain_item list \<Rightarrow> string list \<Rightarrow> string list" where
  \<comment> \<open>the loop over the tokens and the last \<open>flushChain()\<close>: the final \<open>parts\<close>.  A token
      of the kinds \<open>ref\<close> and \<open>r\<close> takes the \<open>rp\<close> token that follows it.\<close>
  "collapse_tokens [] chain parts = flushChain chain parts"
| "collapse_tokens (tok # toks) chain parts =
     (if tk_type tok = TRp
      then (case collapse_token tok None chain parts of (c, p) \<Rightarrow> collapse_tokens toks c p)
      else (case collapse_token tok (next_rp toks) chain parts of (c, p) \<Rightarrow> collapse_tokens (after_rp toks) c p))"
  by pat_completeness auto
termination
  by (relation "measure (\<lambda>(toks, chain, parts). length toks)") (auto simp: after_rp_def)

definition collapse_block :: "string \<Rightarrow> string" where
  \<comment> \<open>the callback of \<open>text.replace(chainRegex, ...)\<close>\<close>
  "collapse_block block =
     (if js_includes block [CHR 0x0A] \<or> js_includes block [CHR 0x0D] then block
      else
        (let trailingWs = (case rx_match (Seqs [Plus (Sym js_ws), Eol]) block of None \<Rightarrow> [] | Some m \<Rightarrow> m_text m);
             trimmedBlock = (if trailingWs \<noteq> [] then js_slice block 0 (- int (length trailingWs)) else block);
             toks = tokenize trimmedBlock
         in if toks = [] then block
            else js_join '' '' (collapse_tokens toks [] []) @ trailingWs))"

definition collapseRefsAndRp :: "string \<Rightarrow> bool \<Rightarrow> string" where
  "collapseRefsAndRp txt preferTemplateR =
     (if \<not> preferTemplateR then txt else rx_replace_all chainRx (\<lambda>m. collapse_block (m_text m)) txt)"

section \<open>The entry point \<open>transformWikitext\<close>\<close>

record Changes =
  renamed :: "(string \<times> jsval) list"
  deduped :: "(jsval \<times> jsval) list"
  movedToLdr :: "jsval list"
  movedToInline :: "jsval list"

record TransformResult =
  wikitext :: string
  changes :: Changes
  warnings :: "string list"

definition transformWikitext :: "(string \<Rightarrow> string \<Rightarrow> int) \<Rightarrow> string \<Rightarrow> TransformOptions \<Rightarrow> js_error + TransformResult" where
  \<comment> \<open>the first argument is the platform's \<open>localeCompare\<close>, used when \<open>sortRefs\<close> is set\<close>
  "transformWikitext localeCompare wikitext0 options =
     (let warnings0 = [];
          renameMap = normalizeRenameMap (o_renameMap options);
          renameNameless = \<lparr>own = o_renameNameless options, has_proto = True\<rparr>;
          reflistNames = map toLowerCase (if o_reflistTemplates options \<noteq> [] then o_reflistTemplates options
                                          else DEFAULT_REFLIST_TEMPLATES);
          targetMode = normalizeLocationMode (o_locationMode options);
          ctx = parseWikitext wikitext0 reflistNames;
          rs1 = normalizeRefKeys (refs ctx);
          rs2 = applyRenames rs1 renameMap renameNameless;
          rs3 = normalizeRefKeys rs2;
          dd = (if o_dedupe options then applyDedupe rs3 else (rs3, []));
          rs5 = assignLocations (fst dd) targetMode
      in case buildReplacementPlan localeCompare (ctx\<lparr>refs := rs5\<rparr>)
                \<lparr>po_useTemplateR = o_useTemplateR options, po_sortRefs = o_sortRefs options,
                 po_normalizeAll = o_normalizeAll options, po_locationModeKeep = (targetMode = keep),
                 po_rename = renameMap\<rparr> of
           Inl e \<Rightarrow> Inl e
         | Inr plan \<Rightarrow>
             (let replaced = applyReplacements wikitext0 (pa_replacements plan);
                  finalText = (if o_useTemplateR options then collapseRefsAndRp replaced True else replaced)
              in Inr \<lparr>wikitext = finalText,
                      changes = \<lparr>renamed = own renameMap, deduped = snd dd,
                                 movedToLdr = pa_movedLdr plan, movedToInline = pa_movedInline plan\<rparr>,
                      warnings = warnings0\<rparr>))"

section \<open>The read-only parser \<open>parseReferences\<close>\<close>

record ReferenceUse =
  ru_index :: nat
  ru_anchor :: "unit option"

record Reference =
  rf_id :: string
  rf_name :: "string option"
  rf_group :: "string option"
  contentWikitext :: string
  rf_uses :: "ReferenceUse list"

definition sanitizeWikitext :: "string \<Rightarrow> string" where
  "sanitizeWikitext txt =
     (let t1 = rx_replace_all (Seqs [Lit ''<!--'', StarLazy AnyChar, Lit ''-->'']) (\<lambda>m. []) txt;
          t2 = rx_replace_all (Seqs [LitI ''<nowiki'', WordB, Star (NoneOf ''>''), Lit ''>'', StarLazy AnyChar, LitI ''</nowiki>'']) (\<lambda>m. []) t1;
          t3 = rx_replace_all (Seqs [LitI ''<pre'', WordB, Star (NoneOf ''>''), Lit ''>'', StarLazy AnyChar, LitI ''</pre>'']) (\<lambda>m. []) t2;
          t4 = rx_replace_all (Seqs [LitI ''<syntaxhighlight'', WordB, Star (NoneOf ''>''), Lit ''>'', StarLazy AnyChar,
                                     LitI ''</syntaxhighlight>'']) (\<lambda>m. []) t3
      in rx_replace_all (Seqs [LitI ''<nowiki'', WordB, Star (NoneOf ''>''), Lit ''/'', Star (Sym js_ws), Lit ''>'']) (\<lambda>m. []) t4)"

definition attrsRx :: rx where
  \<comment> \<open>\<open>(?:\s+\w+\s*=\s*(?:"[^"]*"|'[^']*'|[^\s/>]+))*\<close>\<close>
  "attrsRx =
     Star (Seqs [Plus (Sym js_ws), Plus (Sym js_word), Star (Sym js_ws), Lit ''='', Star (Sym js_ws),
                 Alt (Seqs [Lit [dq], Star (NoneOf [dq]), Lit [dq]])
                (Alt (Seqs [Lit [sq], Star (NoneOf [sq]), Lit [sq]])
                     (Plus (Sym (\<lambda>c. \<not> js_ws c \<and> c \<notin> set ''/>''))))])"

definition refSelfClosingRx :: rx where
  \<comment> \<open>\<open>/<ref\b((?:...)*)\s*\/>/gi\<close>\<close>
  "refSelfClosingRx = Seqs [LitI ''<ref'', WordB, Cap 1 attrsRx, Star (Sym js_ws), Lit ''/>'']"

definition refTagFullRx :: rx where
  \<comment> \<open>\<open>/<ref\b((?:...)*)(?<!\s*\/)\s*>([\s\S]*?)<\/ref>/gi\<close>\<close>
  "refTagFullRx = Seqs [LitI ''<ref'', WordB, Cap 1 attrsRx, NotBehind (Seq (Star (Sym js_ws)) (Lit ''/'')),
                        Star (Sym js_ws), Lit ''>'', Cap 2 (StarLazy AnyChar), LitI ''</ref>'']"

record pr_state =
  pr_refs :: "Reference list"
  pr_nameless :: nat

definition pr_key :: "pr_state \<Rightarrow> string option \<Rightarrow> string" where
  \<comment> \<open>\<open>name ?? `__nameless_${namelessCounter++}`\<close>\<close>
  "pr_key st name = (case name of Some n \<Rightarrow> n | None \<Rightarrow> ''__nameless_'' @ nat_toString (pr_nameless st))"

definition getOrCreateRef :: "pr_state \<Rightarrow> string option \<Rightarrow> string option \<Rightarrow> string \<Rightarrow> pr_state" where
  \<comment> \<open>the closure \<open>getOrCreateRef\<close> followed by \<open>ref.uses.push(...)\<close>, which every caller
      does with the record it gets\<close>
  "getOrCreateRef st name gname content =
     (let key = pr_key st name;
          cnt = (if name = None then pr_nameless st + 1 else pr_nameless st);
          push = (\<lambda>r. r\<lparr>rf_uses := rf_uses r @ [\<lparr>ru_index = length (rf_uses r), ru_anchor = None\<rparr>]\<rparr>)
      in if list_ex (\<lambda>r. rf_id r = key) (pr_refs st) then
           \<lparr>pr_refs = map (\<lambda>r. if rf_id r = key
                                 then push (if content \<noteq> [] \<and> contentWikitext r = [] then r\<lparr>contentWikitext := content\<rparr> else r)
                                 else r) (pr_refs st),
            pr_nameless = cnt\<rparr>
         else
           \<lparr>pr_refs = pr_refs st @ [push \<lparr>rf_id = key, rf_name = name, rf_group = gname, contentWikitext = content, rf_uses = []\<rparr>],
            pr_nameless = cnt\<rparr>)"

definition pr_self :: "pr_state \<Rightarrow> js_match \<Rightarrow> pr_state" where
  "pr_self st m =
     (let attrs = grp_or_empty m 1
      in getOrCreateRef st (extractAttr attrs ''name'') (extractAttr attrs ''group'') [])"

definition pr_full :: "pr_state \<Rightarrow> js_match \<Rightarrow> pr_state" where
  "pr_full st m =
     (let attrs = grp_or_empty m 1;
          content = grp_or_empty m 2
      in getOrCreateRef st (extractAttr attrs ''name'') (extractAttr attrs ''group'') (js_trim content))"

definition pr_template :: "pr_state \<Rightarrow> js_match \<Rightarrow> pr_state" where
  "pr_template st m =
     foldl (\<lambda>s e. getOrCreateRef s (Some (e_value e)) None [])
       st (filter e_isName (parseRTemplateEntries (grp_or_empty m 1)))"

definition parseReferences :: "string \<Rightarrow> Reference list" where
  "parseReferences txt =
     (let sanitized = sanitizeWikitext txt;
          st1 = foldl pr_self \<lparr>pr_refs = [], pr_nameless = 0\<rparr> (rx_all refSelfClosingRx sanitized);
          st2 = foldl pr_full st1 (rx_all refTagFullRx sanitized);
          st3 = foldl pr_template st2 (rx_all rTemplateRx sanitized)
      in pr_refs st3)"

section \<open>Notions used to state the properties\<close>


fun substitute_from :: "string \<Rightarrow> int \<Rightarrow> Replacement list \<Rightarrow> string" where
  \<comment> \<open>the applier's contract in the specification's words: the original text with each
      span replaced by its text, the spans listed by rising start\<close>
  "substitute_from src pos [] = js_slice_from src pos"
| "substitute_from src pos (r # rs) = js_slice src pos (r_start r) @ r_text r @ substitute_from src (r_end r) rs"

fun spans_from :: "int \<Rightarrow> int \<Rightarrow> Replacement list \<Rightarrow> bool" where
  \<comment> \<open>spans that lie between two positions, each ending before the next starts\<close>
  "spans_from lo hi [] = (lo \<le> hi)"
| "spans_from lo hi (r # rs) = (lo \<le> r_start r \<and> r_start r \<le> r_end r \<and> spans_from (r_end r) hi rs)"

definition strip_loc :: "RefRecord \<Rightarrow> RefRecord" where
  \<comment> \<open>a record without its target location\<close>
  "strip_loc r = r\<lparr>targetLocation := inline\<rparr>"

definition assign_inv :: "LocationMode \<Rightarrow> RefRecord list \<Rightarrow> string list \<Rightarrow> RefRecord list \<times> string list \<Rightarrow> bool" where
  \<comment> \<open>the state of the loop of \<open>assignLocations\<close> after the keys \<open>ks\<close>\<close>
  "assign_inv mode rs ks st =
     (map strip_loc (fst st) = map strip_loc rs \<and>
      (\<forall>k \<in> set (snd st). \<forall>c. find_ref rs k = Some c \<longrightarrow> find_ref (fst st) k = Some (c\<lparr>targetLocation := target_for mode rs c\<rparr>)) \<and>
      (\<forall>k \<in> set ks. \<forall>r. find_ref rs k = Some r \<longrightarrow> ref_key (canonical_of rs r) \<in> set (snd st)))"

definition sample_threshold :: "RefRecord list" where
  \<comment> \<open>the records of the document of the test "applies threshold-based LDR placement"\<close>
  "sample_threshold = normalizeRefKeys (refs (parseWikitext
      ''First <ref name=\"rare\">Only once</ref> Repeat <ref name=\"common\">Common content</ref> and again <ref name=\"common\" /> {{reflist}}''
      DEFAULT_REFLIST_TEMPLATES))"

subsection \<open>Occurrences and identities\<close>

text \<open>
  An occurrence, as \<open>parseReferences\<close> meets it: the \<open>name\<close> attribute, the \<open>group\<close>
  attribute and the trimmed body (empty for a self-closing tag and for a name of a
  shorthand template).
\<close>

type_synonym occurrence = "string option \<times> string option \<times> string"

definition occ_name :: "occurrence \<Rightarrow> string option" where
  "occ_name oc = fst oc"

definition occ_group :: "occurrence \<Rightarrow> string option" where
  "occ_group oc = fst (snd oc)"

definition occ_body :: "occurrence \<Rightarrow> string" where
  "occ_body oc = snd (snd oc)"

definition pr_occurrences :: "string \<Rightarrow> occurrence list" where
  \<comment> \<open>the occurrences in the order of the three loops of \<open>parseReferences\<close>\<close>
  "pr_occurrences txt =
     (let sanitized = sanitizeWikitext txt
      in map (\<lambda>m. (extractAttr (grp_or_empty m 1) ''name'', extractAttr (grp_or_empty m 1) ''group'', []))
           (rx_all refSelfClosingRx sanitized) @
         map (\<lambda>m. (extractAttr (grp_or_empty m 1) ''name'', extractAttr (grp_or_empty m 1) ''group'', js_trim (grp_or_empty m 2)))
           (rx_all refTagFullRx sanitized) @
         concat (map (\<lambda>m. map (\<lambda>e. (Some (e_value e), None, [])) (filter e_isName (parseRTemplateEntries (grp_or_empty m 1))))
           (rx_all rTemplateRx sanitized)))"

definition nameless_key :: "nat \<Rightarrow> string" where
  \<comment> \<open>the synthetic identity number \<open>n\<close>\<close>
  "nameless_key n = ''__nameless_'' @ nat_toString n"

definition occ_key :: "nat \<Rightarrow> occurrence \<Rightarrow> string" where
  \<comment> \<open>the identity of an occurrence met after \<open>n\<close> unnamed ones\<close>
  "occ_key n oc = (case occ_name oc of Some k \<Rightarrow> k | None \<Rightarrow> nameless_key n)"

fun occ_keys :: "nat \<Rightarrow> occurrence list \<Rightarrow> string list" where
  "occ_keys n [] = []"
| "occ_keys n (oc # ocs) = occ_key n oc # occ_keys (if occ_name oc = None then n + 1 else n) ocs"

definition first_body :: "string \<Rightarrow> (string \<times> string) list \<Rightarrow> string" where
  \<comment> \<open>the first body that is not empty among the pairs under a key; empty if there is none\<close>
  "first_body k xs = (case find (\<lambda>kc. fst kc = k \<and> snd kc \<noteq> []) xs of None \<Rightarrow> [] | Some kc \<Rightarrow> snd kc)"

definition keyed_bodies :: "occurrence list \<Rightarrow> (string \<times> string) list" where
  "keyed_bodies ocs = zip (occ_keys 0 ocs) (map occ_body ocs)"

definition pr_step :: "pr_state \<Rightarrow> occurrence \<Rightarrow> pr_state" where
  "pr_step st oc = getOrCreateRef st (fst oc) (fst (snd oc)) (snd (snd oc))"

definition unnamed :: "occurrence list \<Rightarrow> nat" where
  "unnamed ocs = length (filter (\<lambda>oc. occ_name oc = None) ocs)"

definition pr_inv :: "occurrence list \<Rightarrow> pr_state \<Rightarrow> bool" where
  \<comment> \<open>the state of \<open>parseReferences\<close> after the occurrences \<open>ocs\<close>\<close>
  "pr_inv ocs st =
     (pr_nameless st = unnamed ocs \<and>
      distinct (map rf_id (pr_refs st)) \<and>
      set (map rf_id (pr_refs st)) = set (occ_keys 0 ocs) \<and>
      (\<forall>r \<in> set (pr_refs st).
          contentWikitext r = first_body (rf_id r) (keyed_bodies ocs) \<and>
          length (rf_uses r) = count_list (occ_keys 0 ocs) (rf_id r)))"

text \<open>
  In \<open>parseWikitext\<close> every occurrence is handled the same way: \<open>getRef\<close> answers its
  record, a use object is made and pushed on one or two lists of the record.
\<close>

definition attach_def :: "RefUseInternal \<Rightarrow> RefRecord \<Rightarrow> RefRecord" where
  "attach_def u r = r\<lparr>definitions := definitions r @ [u], uses := uses r @ [u]\<rparr>"

definition attach_use :: "RefUseInternal \<Rightarrow> RefRecord \<Rightarrow> RefRecord" where
  "attach_use u r = r\<lparr>uses := uses r @ [u]\<rparr>"

definition attach_ldr :: "RefUseInternal \<Rightarrow> RefRecord \<Rightarrow> RefRecord" where
  "attach_ldr u r = r\<lparr>ldrDefinitions := ldrDefinitions r @ [u]\<rparr>"

definition attaches :: "(RefUseInternal \<Rightarrow> RefRecord \<Rightarrow> RefRecord) \<Rightarrow> bool" where
  "attaches f = (f = attach_def \<or> f = attach_use \<or> f = attach_ldr)"

definition push_occurrence ::
  "(RefUseInternal \<Rightarrow> RefRecord \<Rightarrow> RefRecord) \<Rightarrow> string option \<Rightarrow> string option \<Rightarrow> (nat \<Rightarrow> RefUseInternal) \<Rightarrow>
   parse_state \<Rightarrow> parse_state" where
  "push_occurrence f name gname mk st =
     (case getRef st name gname of
        (st1, key) \<Rightarrow> st1\<lparr>ps_uid := ps_uid st1 + 1, ps_refs := upd_ref key (f (mk (ps_uid st1))) (ps_refs st1)\<rparr>)"

definition new_record :: "string \<Rightarrow> string option \<Rightarrow> string option \<Rightarrow> RefRecord" where
  \<comment> \<open>the record \<open>getRef\<close> makes under a key it has not seen\<close>
  "new_record key name gname =
     \<lparr>ref_id = key, ref_name = of_opt name, ref_group = gname, ref_key = key,
      definitions = [], uses = [], ldrDefinitions = [], canonical = None, targetLocation = inline\<rparr>"

definition key_inv :: "parse_state \<Rightarrow> bool" where
  \<comment> \<open>what holds of the keys of the records while \<open>parseWikitext\<close> runs\<close>
  "key_inv st =
     (distinct (map ref_key (ps_refs st)) \<and>
      (\<forall>r \<in> set (ps_refs st).
          ref_id r = ref_key r \<and> canonical r = None \<and> (\<exists>n. ref_name r = of_opt n) \<and>
          (truthy (ref_name r) \<longrightarrow> ref_key r = refKey (ref_name r) (ref_group r)) \<and>
          (\<not> truthy (ref_name r) \<longrightarrow>
             (\<exists>i < ps_nameless st. ref_key r = nameless_key i) \<and> length (uses r) + length (ldrDefinitions r) = 1)))"

definition uid_inv :: "parse_state \<Rightarrow> bool" where
  \<comment> \<open>the definitions of a record, inline then list-defined, stand in the order in which
      the parser made them\<close>
  "uid_inv st =
     (\<forall>r \<in> set (ps_refs st).
         sorted_wrt (<) (map u_uid (definitions r @ ldrDefinitions r)) \<and>
         (\<forall>u \<in> set (definitions r @ ldrDefinitions r). u_uid u < ps_uid st))"

definition no_ldr :: "parse_state \<Rightarrow> bool" where
  "no_ldr st = (\<forall>r \<in> set (ps_refs st). ldrDefinitions r = [])"

definition parse_inv :: "parse_state \<Rightarrow> bool" where
  "parse_inv st = (key_inv st \<and> uid_inv st)"

definition sample_redefined :: string where
  \<comment> \<open>a reference defined with a blank body and then twice more\<close>
  "sample_redefined = ''<ref name=a> </ref><ref name=a>One</ref><ref name=a>Two</ref>''"

subsection \<open>Identity of occurrences in the transform engine\<close>








section \<open>Properties\<close>

subsection \<open>The replacement applier\<close>

lemma spans_from_le: "spans_from lo hi rs \<Longrightarrow> lo \<le> hi"
  by (induction rs arbitrary: lo) fastforce+

lemma js_slice_nonneg: "0 \<le> a \<Longrightarrow> a \<le> b \<Longrightarrow> b \<le> int (length s) \<Longrightarrow> js_slice s a b = take (nat (b - a)) (drop (nat a) s)"
  by (simp add: js_slice_def js_clamp_def min_def nat_diff_distrib)

lemma js_slice_from_nonneg: "0 \<le> a \<Longrightarrow> a \<le> int (length s) \<Longrightarrow> js_slice_from s a = drop (nat a) s"
  by (simp add: js_slice_from_def js_clamp_def min_def)

lemma apply_sorted_substitute:
  "spans_from pos (int (length src)) rs \<Longrightarrow> 0 \<le> pos \<Longrightarrow>
   apply_sorted (done @ drop (nat pos) src) (int (length done) - pos) rs = done @ substitute_from src pos rs"
proof (induction rs arbitrary: pos "done")
  case Nil
  then show ?case by (simp add: js_slice_from_nonneg)
next
  case (Cons r rs)
  let ?s = "r_start r" and ?e = "r_end r"
  from Cons.prems have b: "pos \<le> ?s" "?s \<le> ?e" "spans_from ?e (int (length src)) rs" by auto
  then have e_le: "?e \<le> int (length src)" using spans_from_le by blast
  let ?out = "done @ drop (nat pos) src"
  have len: "int (length ?out) = int (length done) + (int (length src) - pos)"
    using Cons.prems(2) b e_le by (simp add: of_nat_diff)
  have s1: "js_slice ?out 0 (?s + (int (length done) - pos)) = done @ take (nat (?s - pos)) (drop (nat pos) src)"
  proof -
    have "js_slice ?out 0 (?s + (int (length done) - pos)) = take (nat (?s + (int (length done) - pos))) ?out"
      using b e_le Cons.prems(2) len by (subst js_slice_nonneg) auto
    also have "\<dots> = done @ take (nat (?s - pos)) (drop (nat pos) src)"
    proof -
      have "nat (?s + (int (length done) - pos)) = length done + nat (?s - pos)" using b by linarith
      then show ?thesis by simp
    qed
    finally show ?thesis .
  qed
  have s2: "js_slice_from ?out (?e + (int (length done) - pos)) = drop (nat ?e) src"
  proof -
    have "js_slice_from ?out (?e + (int (length done) - pos)) = drop (nat (?e + (int (length done) - pos))) ?out"
      using b e_le Cons.prems(2) len by (subst js_slice_from_nonneg) auto
    also have "\<dots> = drop (nat (?e - pos)) (drop (nat pos) src)"
    proof -
      have "nat (?e + (int (length done) - pos)) = length done + nat (?e - pos)" using b by linarith
      then show ?thesis by simp
    qed
    also have "\<dots> = drop (nat ?e) src"
    proof -
      have "nat (?e - pos) + nat pos = nat ?e" using b Cons.prems(2) by linarith
      then show ?thesis by simp
    qed
    finally show ?thesis .
  qed
  have s3: "js_slice src pos ?s = take (nat (?s - pos)) (drop (nat pos) src)"
    using b e_le Cons.prems(2) by (simp add: js_slice_nonneg)
  let ?done' = "done @ take (nat (?s - pos)) (drop (nat pos) src) @ r_text r"
  have "nat (?s - pos) \<le> length src - nat pos" using b e_le Cons.prems(2) by linarith
  then have lt: "length (take (nat (?s - pos)) (drop (nat pos) src)) = nat (?s - pos)" by simp
  have off: "int (length done) - pos + (int (length (r_text r)) - (?e - ?s)) = int (length ?done') - ?e"
    using b lt by simp
  have "apply_sorted ?out (int (length done) - pos) (r # rs)
        = apply_sorted (?done' @ drop (nat ?e) src) (int (length done) - pos + (int (length (r_text r)) - (?e - ?s))) rs"
    by (simp only: apply_sorted.simps s1 s2 append_assoc)
  also have "\<dots> = apply_sorted (?done' @ drop (nat ?e) src) (int (length ?done') - ?e) rs"
    by (simp only: off)
  also have "\<dots> = ?done' @ substitute_from src ?e rs"
    using Cons.IH [of ?e ?done'] b Cons.prems(2) by simp
  finally show ?case using s3 by simp
qed

lemma keep_first_span_distinct:
  "distinct (map (\<lambda>r. (r_start r, r_end r)) rs) \<Longrightarrow> set seen \<inter> (\<lambda>r. (r_start r, r_end r)) ` set rs = {} \<Longrightarrow>
   keep_first_span seen rs = rs"
  by (induction rs arbitrary: seen) auto

lemma sort_key_neg_then: "sort_key r_start (sort_key (\<lambda>r. - r_start r) rs) = sort_key r_start (rs :: Replacement list)"
proof (rule properties_for_sort_key)
  show "mset (sort_key r_start rs) = mset (sort_key (\<lambda>r. - r_start r) rs)" by simp
  show "sorted (map r_start (sort_key r_start rs))" by simp
  fix k assume "k \<in> set (sort_key r_start rs)"
  have "filter (\<lambda>x. r_start k = r_start x) (sort_key (\<lambda>r. - r_start r) rs)
        = filter (\<lambda>x. - r_start x = - r_start k) (sort_key (\<lambda>r. - r_start r) rs)"
    by (rule filter_cong) auto
  also have "\<dots> = filter (\<lambda>x. - r_start x = - r_start k) rs" by (rule sort_key_stable)
  also have "\<dots> = filter (\<lambda>x. r_start k = r_start x) rs" by (rule filter_cong) auto
  finally have a: "filter (\<lambda>x. r_start k = r_start x) (sort_key (\<lambda>r. - r_start r) rs) = filter (\<lambda>x. r_start k = r_start x) rs" .
  have "filter (\<lambda>x. r_start k = r_start x) (sort_key r_start rs) = filter (\<lambda>x. r_start x = r_start k) (sort_key r_start rs)"
    by (rule filter_cong) auto
  also have "\<dots> = filter (\<lambda>x. r_start x = r_start k) rs" by (rule sort_key_stable)
  also have "\<dots> = filter (\<lambda>x. r_start k = r_start x) rs" by (rule filter_cong) auto
  finally show "filter (\<lambda>x. r_start k = r_start x) (sort_key r_start rs) = filter (\<lambda>x. r_start k = r_start x) (sort_key (\<lambda>r. - r_start r) rs)"
    using a by simp
qed

lemma applier_refines_independent_substitution:
  assumes "distinct (map (\<lambda>r. (r_start r, r_end r)) rs)"
    and "spans_from 0 (int (length src)) (sort_key r_start rs)"
  shows "applyReplacements src (collapseReplacements rs) = substitute_from src 0 (sort_key r_start rs)"
proof -
  have "distinct (map (\<lambda>r. (r_start r, r_end r)) (sort_key (\<lambda>r. - r_start r) rs))"
    using assms(1) by (metis distinct_map distinct_sort set_sort inj_on_def) 
  then have "collapseReplacements rs = sort_key (\<lambda>r. - r_start r) rs"
    by (simp add: collapseReplacements_def keep_first_span_distinct)
  then have "applyReplacements src (collapseReplacements rs) = apply_sorted src 0 (sort_key r_start rs)"
    by (simp add: applyReplacements_def sort_key_neg_then)
  also have "\<dots> = substitute_from src 0 (sort_key r_start rs)"
    using apply_sorted_substitute [of 0 src "sort_key r_start rs" "[]"] assms(2) by simp
  finally show ?thesis .
qed


text \<open>
  Claim C6.  The applier removes replacements of the same span, sorts by rising start
  and applies from left to right with a running offset; for spans that do not overlap
  the result is the original text with each span replaced
  (\<open>applier_refines_independent_substitution\<close>).  Of two replacements of the same span
  the claim keeps the later one, and so does the comment at the call
  ("De-duplicate overlapping replacements by keeping last").  The code keeps the one
  listed first: the stable sort leaves the two in their order and the loop skips a
  span it has seen.
\<close>

theorem C6_collapse_keeps_first_listed:
  "collapseReplacements [\<lparr>r_start = 0, r_end = 1, r_text = ''A''\<rparr>, \<lparr>r_start = 0, r_end = 1, r_text = ''B''\<rparr>]
     = [\<lparr>r_start = 0, r_end = 1, r_text = ''A''\<rparr>] \<and>
   applyReplacements ''x''
     (collapseReplacements [\<lparr>r_start = 0, r_end = 1, r_text = ''A''\<rparr>, \<lparr>r_start = 0, r_end = 1, r_text = ''B''\<rparr>]) = ''A''"
  by code_simp

subsection \<open>Totality\<close>

text \<open>
  Claim C9.  \<open>parseReferences\<close> and the template scanner are total: the scanner's loop
  is \<open>findTemplates_from\<close>, whose termination is proved above, and it steps over a
  \<open>{{\<close> that is never closed.  \<open>transformWikitext\<close> is not total: a reference whose
  name is a member of \<open>Object.prototype\<close> is "renamed" to that member by the lookup
  \<open>rename[ref.name]\<close>, and rendering its tag calls \<open>replace\<close> on a function.
\<close>

theorem C9_transformWikitext_throws_on_prototype_name:
  "transformWikitext localeCompare ''<ref name=\"toString\">x</ref>'' no_options = Inl TypeError"
  by code_simp

subsection \<open>Warnings and the list of renames\<close>











subsection \<open>Location assignment\<close>

lemma strip_fields:
  "strip_loc a = strip_loc b \<Longrightarrow> ref_key a = ref_key b \<and> ref_name a = ref_name b \<and> canonical a = canonical b \<and>
     uses a = uses b \<and> ldrDefinitions a = ldrDefinitions b \<and> definitions a = definitions b"
  by (cases a, cases b) (simp add: strip_loc_def)

lemma find_ref_strip:
  "map strip_loc rs' = map strip_loc rs \<Longrightarrow> map_option strip_loc (find_ref rs' k) = map_option strip_loc (find_ref rs k)"
proof (induction rs arbitrary: rs')
  case Nil
  then show ?case by (simp add: find_ref_def)
next
  case (Cons r rs)
  then obtain r' rs0 where e: "rs' = r' # rs0" "strip_loc r' = strip_loc r" "map strip_loc rs0 = map strip_loc rs" by auto
  then have "ref_key r' = ref_key r" using strip_fields by blast
  then show ?case using Cons.IH [OF e(3)] e by (simp add: find_ref_def)
qed

lemma canonical_of_strip:
  assumes "map strip_loc rs' = map strip_loc rs" "strip_loc r' = strip_loc r"
  shows "strip_loc (canonical_of rs' r') = strip_loc (canonical_of rs r)"
proof -
  have c: "canonical r' = canonical r" using assms(2) strip_fields by blast
  show ?thesis
  proof (cases "canonical r")
    case None
    then show ?thesis using c assms(2) by (simp add: canonical_of_def)
  next
    case (Some k)
    have "map_option strip_loc (find_ref rs' k) = map_option strip_loc (find_ref rs k)"
      using find_ref_strip [OF assms(1)] .
    then show ?thesis using c Some assms(2) by (auto simp: canonical_of_def split: option.splits)
  qed
qed

lemma filter_strip:
  assumes "map strip_loc rs' = map strip_loc rs"
  shows "map uses (filter (\<lambda>ref. ref_key (canonical_of rs' ref) = k) rs') = map uses (filter (\<lambda>ref. ref_key (canonical_of rs ref) = k) rs)"
proof -
  have "\<And>xs' xs. map strip_loc xs' = map strip_loc xs \<Longrightarrow>
      map uses (filter (\<lambda>ref. ref_key (canonical_of rs' ref) = k) xs') = map uses (filter (\<lambda>ref. ref_key (canonical_of rs ref) = k) xs)"
  proof -
    fix xs' xs :: "RefRecord list"
    show "map strip_loc xs' = map strip_loc xs \<Longrightarrow>
      map uses (filter (\<lambda>ref. ref_key (canonical_of rs' ref) = k) xs') = map uses (filter (\<lambda>ref. ref_key (canonical_of rs ref) = k) xs)"
    proof (induction xs arbitrary: xs')
      case Nil
      then show ?case by simp
    next
      case (Cons x xs)
      then obtain x' xs0 where e: "xs' = x' # xs0" "strip_loc x' = strip_loc x" "map strip_loc xs0 = map strip_loc xs" by auto
      have "ref_key (canonical_of rs' x') = ref_key (canonical_of rs x)"
        using canonical_of_strip [OF assms e(2)] strip_fields by blast
      moreover have "uses x' = uses x" using e(2) strip_fields by blast
      ultimately show ?case using Cons.IH [OF e(3)] e by simp
    qed
  qed
  then show ?thesis using assms by blast
qed

lemma aggregateUses_length:
  "length (aggregateUses rs c) = sum_list (map (\<lambda>r. length (uses r)) (filter (\<lambda>ref. ref_key (canonical_of rs ref) = ref_key c) rs))"
  by (simp add: aggregateUses_def length_concat comp_def)

lemma target_for_strip:
  assumes "map strip_loc rs' = map strip_loc rs" "strip_loc c' = strip_loc c"
  shows "target_for mode rs' c' = target_for mode rs c"
proof -
  have k: "ref_key c' = ref_key c" "ref_name c' = ref_name c" "ldrDefinitions c' = ldrDefinitions c"
    using assms(2) strip_fields by blast+
  have m: "\<And>xs. map (\<lambda>r. length (uses r)) xs = map length (map uses xs)" by simp
  have "length (aggregateUses rs' c') = length (aggregateUses rs c)"
    unfolding aggregateUses_length k m
    using filter_strip [OF assms(1), of "ref_key c"] by simp
  then show ?thesis using k by (simp add: target_for_def split: LocationMode.splits)
qed

lemma upd_ref_strip: "map strip_loc (upd_ref k (\<lambda>r. r\<lparr>targetLocation := x\<rparr>) rs) = map strip_loc rs"
  by (induction rs) (auto simp: upd_ref_def strip_loc_def)

lemma find_ref_upd_loc:
  "find_ref (upd_ref k (\<lambda>r. r\<lparr>targetLocation := x\<rparr>) rs) k' =
     (if k' = k then map_option (\<lambda>r. r\<lparr>targetLocation := x\<rparr>) (find_ref rs k') else find_ref rs k')"
  by (induction rs) (auto simp: find_ref_def upd_ref_def)

lemma find_ref_key: "find_ref rs k = Some r \<Longrightarrow> ref_key r = k \<and> r \<in> set rs"
  unfolding find_ref_def by (metis (mono_tags, lifting) find_Some_iff nth_mem)

lemma find_ref_distinct: "distinct (map ref_key rs) \<Longrightarrow> r \<in> set rs \<Longrightarrow> find_ref rs (ref_key r) = Some r"
  by (induction rs) (auto simp: find_ref_def)

lemma canonical_of_in: "r \<in> set rs \<Longrightarrow> canonical_of rs r \<in> set rs"
  by (auto simp: canonical_of_def split: option.splits dest: find_ref_key)

lemma assign_step_inv:
  assumes "assign_inv mode rs ks st" and dist: "distinct (map ref_key rs)"
  shows "assign_inv mode rs (ks @ [key]) (assign_step mode st key)"
proof -
  obtain rs' processed where st: "st = (rs', processed)" by (cases st)
  have I1: "map strip_loc rs' = map strip_loc rs"
    and I2: "\<And>k c. k \<in> set processed \<Longrightarrow> find_ref rs k = Some c \<Longrightarrow> find_ref rs' k = Some (c\<lparr>targetLocation := target_for mode rs c\<rparr>)"
    and I3: "\<And>k r. k \<in> set ks \<Longrightarrow> find_ref rs k = Some r \<Longrightarrow> ref_key (canonical_of rs r) \<in> set processed"
    using assms st by (auto simp: assign_inv_def)
  show ?thesis
  proof (cases "find_ref rs' key")
    case None
    then have "find_ref rs key = None" using find_ref_strip [OF I1, of key] by simp
    then show ?thesis using None st assms by (auto simp: assign_inv_def assign_step_def)
  next
    case (Some ref')
    then obtain ref where r: "find_ref rs key = Some ref" "strip_loc ref' = strip_loc ref"
      using find_ref_strip [OF I1, of key] by (cases "find_ref rs key") auto
    let ?c' = "canonical_of rs' ref'" and ?c = "canonical_of rs ref"
    have sc: "strip_loc ?c' = strip_loc ?c" using canonical_of_strip [OF I1 r(2)] .
    then have kc: "ref_key ?c' = ref_key ?c" using strip_fields by blast
    have tf: "target_for mode rs' ?c' = target_for mode rs ?c" using target_for_strip [OF I1 sc] .
    show ?thesis
    proof (cases "ref_key ?c' \<in> set processed")
      case True
      then have "assign_step mode st key = st" using Some st by (simp add: assign_step_def Let_def)
      moreover have "ref_key ?c \<in> set processed" using True kc by simp
      ultimately show ?thesis using assms r st by (auto simp: assign_inv_def)
    next
      case False
      let ?rs2 = "upd_ref (ref_key ?c) (\<lambda>r. r\<lparr>targetLocation := target_for mode rs ?c\<rparr>) rs'"
      have step: "assign_step mode st key = (?rs2, ref_key ?c # processed)"
        using Some st False kc tf by (simp add: assign_step_def Let_def)
      have J1: "map strip_loc ?rs2 = map strip_loc rs" using I1 upd_ref_strip by simp
      have J2: "find_ref ?rs2 k = Some (c\<lparr>targetLocation := target_for mode rs c\<rparr>)"
        if a: "k \<in> set (ref_key ?c # processed)" and b: "find_ref rs k = Some c" for k c
      proof (cases "k = ref_key ?c")
        case True
        have cin: "?c \<in> set rs" using r(1) canonical_of_in find_ref_key by blast
        obtain c0 where c0: "find_ref rs' k = Some c0" "strip_loc c0 = strip_loc c"
          using find_ref_strip [OF I1, of k] b by (cases "find_ref rs' k") auto
        have "c\<lparr>targetLocation := x\<rparr> = c0\<lparr>targetLocation := x\<rparr>" for x
          using c0(2) by (cases c, cases c0) (simp add: strip_loc_def)
        moreover have "target_for mode rs c = target_for mode rs ?c"
        proof -
          have "find_ref rs (ref_key ?c) = Some ?c" using dist cin find_ref_distinct by blast
          then have "c = ?c" using b True by simp
          then show ?thesis by simp
        qed
        ultimately show ?thesis using True c0 by (simp add: find_ref_upd_loc)
      next
        case False
        then have "k \<in> set processed" using a by simp
        then show ?thesis using I2 [OF _ b] False by (simp add: find_ref_upd_loc)
      qed
      have J3: "ref_key (canonical_of rs r0) \<in> set (ref_key ?c # processed)"
        if a: "k \<in> set (ks @ [key])" and b: "find_ref rs k = Some r0" for k r0
        using a b I3 r(1) by auto
      show ?thesis unfolding step assign_inv_def using J1 J2 J3 by auto
    qed
  qed
qed

lemma assign_fold_inv:
  assumes "distinct (map ref_key rs)" "assign_inv mode rs ks st"
  shows "assign_inv mode rs (ks @ ks') (foldl (assign_step mode) st ks')"
  using assms(2)
proof (induction ks' arbitrary: ks st)
  case Nil
  then show ?case by simp
next
  case (Cons k ks')
  have "assign_inv mode rs (ks @ [k]) (assign_step mode st k)"
    using assign_step_inv [OF Cons.prems assms(1)] .
  from Cons.IH [OF this] show ?case by simp
qed

lemma assignLocations_target:
  assumes dist: "distinct (map ref_key rs)" and mem: "ref \<in> set rs"
  shows "find_ref (assignLocations rs mode) (ref_key (canonical_of rs ref))
           = Some ((canonical_of rs ref)\<lparr>targetLocation := target_for mode rs (canonical_of rs ref)\<rparr>)"
proof -
  let ?st = "foldl (assign_step mode) (rs, []) (map ref_key rs)"
  have "assign_inv mode rs [] (rs, [])" by (simp add: assign_inv_def)
  then have inv: "assign_inv mode rs (map ref_key rs) ?st"
    using assign_fold_inv [OF dist, of mode "[]" "(rs, [])" "map ref_key rs"] by simp
  have f: "find_ref rs (ref_key ref) = Some ref" using dist mem find_ref_distinct by blast
  have "ref_key ref \<in> set (map ref_key rs)" using mem by simp
  then have p: "ref_key (canonical_of rs ref) \<in> set (snd ?st)"
    using inv f unfolding assign_inv_def by blast
  have "find_ref rs (ref_key (canonical_of rs ref)) = Some (canonical_of rs ref)"
    using dist mem canonical_of_in find_ref_distinct by blast
  then show ?thesis using inv p unfolding assign_inv_def assignLocations_def by blast
qed


lemma find_ref_None: "find_ref rs k = None \<longleftrightarrow> k \<notin> ref_key ` set rs"
  by (induction rs) (auto simp: find_ref_def)

lemma upd_ref_keys: "(\<And>r. ref_key (f r) = ref_key r) \<Longrightarrow> map ref_key (upd_ref k f rs) = map ref_key rs"
  by (induction rs) (auto simp: upd_ref_def)

lemma nrk_step_distinct: "distinct (map ref_key (fst acc)) \<Longrightarrow> distinct (map ref_key (fst (nrk_step acc ref)))"
  by (cases acc) (auto simp: nrk_step_def Let_def upd_ref_keys find_ref_None)

lemma nrk_fold_distinct: "distinct (map ref_key (fst acc)) \<Longrightarrow> distinct (map ref_key (fst (foldl nrk_step acc rs)))"
  by (induction rs arbitrary: acc) (simp_all add: nrk_step_distinct)

lemma normalizeRefKeys_distinct: "distinct (map ref_key (normalizeRefKeys rs))"
  using nrk_fold_distinct [of "([], 0)" rs] by (simp add: normalizeRefKeys_def)

lemma dedupe_step_keys: "map ref_key (d_refs (dedupe_step st k)) = map ref_key (d_refs st)"
  by (auto simp: dedupe_step_def Let_def upd_ref_keys split: option.splits)

lemma dedupe_fold_keys: "map ref_key (d_refs (foldl dedupe_step st ks)) = map ref_key (d_refs st)"
  by (induction ks arbitrary: st) (simp_all add: dedupe_step_keys)

lemma applyDedupe_keys: "map ref_key (fst (applyDedupe rs)) = map ref_key rs"
  by (simp add: applyDedupe_def Let_def dedupe_fold_keys)

lemma sample_threshold_distinct: "distinct (map ref_key sample_threshold)"
  unfolding sample_threshold_def by (rule normalizeRefKeys_distinct)

lemma sample_threshold_keys: "map (\<lambda>r. (ref_key r, ref_name r, length (uses r), canonical r)) sample_threshold
    = [(''::rare'', JStr ''rare'', 1, None), (''::common'', JStr ''common'', 2, None)]"
  by code_simp

text \<open>
  Claim C5, as amended.  The records handed to \<open>assignLocations\<close> have distinct keys
  (\<open>normalizeRefKeys_distinct\<close>, \<open>applyDedupe_keys\<close>).  For the canonical record \<open>c\<close>
  of any of them: under \<open>{minUsesForLdr: n}\<close> a named \<open>c\<close> is list-defined exactly when
  the uses of all the records whose canonical record is \<open>c\<close> number at least \<open>n\<close>;
  under every policy but \<open>keep\<close> an unnamed \<open>c\<close> is inline; under \<open>keep\<close> any \<open>c\<close>,
  named or not, is list-defined exactly when it has a list-defined definition.  A
  threshold below 1 is read as 2.
\<close>

theorem C5_location_assignment:
  "distinct (map ref_key rs) \<Longrightarrow> ref \<in> set rs \<Longrightarrow>
     (let c = canonical_of rs ref;
          loc = map_option targetLocation (find_ref (assignLocations rs mode) (ref_key c));
          total = sum_list (map (\<lambda>r. length (uses r)) (filter (\<lambda>r. ref_key (canonical_of rs r) = ref_key c) rs))
      in (\<forall>n. mode = minUsesForLdr n \<and> truthy (ref_name c) \<longrightarrow> loc = Some (if n \<le> int total then ldr else inline)) \<and>
         (mode \<noteq> keep \<and> \<not> truthy (ref_name c) \<longrightarrow> loc = Some inline) \<and>
         (mode = keep \<longrightarrow> loc = Some (if ldrDefinitions c \<noteq> [] then ldr else inline))) \<and>
     normalizeLocationMode (Some (minUsesForLdr m)) = minUsesForLdr (if 1 \<le> m then m else 2)"
proof -
  assume d: "distinct (map ref_key rs)" and m: "ref \<in> set rs"
  have "find_ref (assignLocations rs mode) (ref_key (canonical_of rs ref))
           = Some ((canonical_of rs ref)\<lparr>targetLocation := target_for mode rs (canonical_of rs ref)\<rparr>)"
    using assignLocations_target [OF d m] .
  then show ?thesis
    by (auto simp: Let_def target_for_def aggregateUses_length normalizeLocationMode_def split: LocationMode.splits)
qed

theorem C5_witness:
  "distinct (map ref_key sample_threshold) \<and> sample_threshold ! 1 \<in> set sample_threshold \<and>
   map_option targetLocation (find_ref (assignLocations sample_threshold (minUsesForLdr 2)) ''::common'') = Some ldr"
proof -
  have k: "ref_key (sample_threshold ! 1) = ''::common''" "ref_name (sample_threshold ! 1) = JStr ''common''"
    "canonical (sample_threshold ! 1) = None" "length sample_threshold = 2"
    using arg_cong [OF sample_threshold_keys, of "\<lambda>l. l ! 1"] arg_cong [OF sample_threshold_keys, of length]
    by (simp_all add: nth_map)
  have m: "sample_threshold ! 1 \<in> set sample_threshold" using k(4) by simp
  have c: "canonical_of sample_threshold (sample_threshold ! 1) = sample_threshold ! 1"
    using k(3) by (simp add: canonical_of_def)
  have t: "sum_list (map (\<lambda>r. length (uses r))
             (filter (\<lambda>r. ref_key (canonical_of sample_threshold r) = ''::common'') sample_threshold)) = 2"
    by code_simp
  show ?thesis
    using C5_location_assignment [OF sample_threshold_distinct m, of "minUsesForLdr 2" 2] m k c t sample_threshold_distinct
    by (simp add: Let_def)
qed

theorem C5_counterexample:
  "map (\<lambda>r. (ref_name r, targetLocation r))
     (assignLocations (normalizeRefKeys (refs (parseWikitext ''{{reflist|refs=<ref>foo</ref>}}'' DEFAULT_REFLIST_TEMPLATES))) keep)
   = [(JNull, ldr)]"
  by code_simp

subsection \<open>Dedupe\<close>

text \<open>
  Claim C4.  The pass groups the named references by normalized content, points every
  later member at the first and reports one pair for it.  The losing name does not
  always leave the output: a shorthand use \<open>{{r|b}}\<close> of a reference that the same
  call renames to \<open>c\<close> and merges into \<open>a\<close> is rendered by \<open>resolveName\<close>, which
  asks the rename map before the canonical record, and comes out as a tag named
  \<open>c\<close>, a name no definition carries any more.
\<close>

theorem C4_losing_name_stays_in_output:
  "transformWikitext localeCompare ''<ref name=\"a\">C</ref><ref name=\"b\">C</ref>{{r|b}}''
     (no_options\<lparr>o_renameMap := [(''b'', JStr ''c'')], o_dedupe := True\<rparr>)
   = Inr \<lparr>wikitext = ''<ref name=\"a\">C</ref><ref name=\"a\" /><ref name=\"c\" />'',
          changes = \<lparr>renamed = [(''b'', JStr ''c'')], deduped = [(JStr ''c'', JStr ''a'')], movedToLdr = [],
                     movedToInline = []\<rparr>,
          warnings = []\<rparr>"
  by code_simp

subsection \<open>The collapse pass\<close>










subsection \<open>The two builders\<close>

lemma digit_val_nth: "n < 10 \<Longrightarrow> digit_val (''0123456789'' ! n) = n"
proof -
  assume "n < 10"
  then have "n \<in> {0, 1, 2, 3, 4, 5, 6, 7, 8, 9}" by auto
  then show ?thesis by (auto simp: digit_val_def)
qed

lemma digit_nth_mem: "n < 10 \<Longrightarrow> ''0123456789'' ! n \<in> set ''0123456789''"
  by (rule nth_mem) simp

lemma parseInt_snoc: "parseInt (ds @ [d]) = 10 * parseInt ds + digit_val d"
  by (simp add: parseInt_def)

lemma parseInt_nat_digits: "n < f \<Longrightarrow> parseInt (nat_digits f n) = n"
proof (induction f n rule: nat_digits.induct)
  case (1 n)
  then show ?case by simp
next
  case (2 fuel n)
  show ?case
  proof (cases "n < 10")
    case True
    then have "parseInt [''0123456789'' ! n] = n" by (simp add: parseInt_def digit_val_nth)
    then show ?thesis using True by simp
  next
    case False
    then have "n div 10 < fuel" using 2(2) by linarith
    then have "parseInt (nat_digits fuel (n div 10)) = n div 10" using 2(1) False by simp
    then have "parseInt (nat_digits fuel (n div 10) @ [''0123456789'' ! (n mod 10)]) = n"
      by (simp only: parseInt_snoc digit_val_nth) simp
    then show ?thesis using False by simp
  qed
qed

lemma parseInt_nat_toString: "parseInt (nat_toString n) = n"
  unfolding nat_toString_def by (rule parseInt_nat_digits) simp

lemma nat_toString_inj: "nat_toString n = nat_toString m \<Longrightarrow> n = m"
  by (metis parseInt_nat_toString)

lemma nat_digits_set: "set (nat_digits f n) \<subseteq> set ''0123456789''"
proof (induction f n rule: nat_digits.induct)
  case (1 n)
  then show ?case by simp
next
  case (2 fuel n)
  have a: "''0123456789'' ! (n mod 10) \<in> set ''0123456789''" by (rule digit_nth_mem) simp
  show ?case
  proof (cases "n < 10")
    case True
    then show ?thesis using digit_nth_mem [of n] by simp
  next
    case False
    then show ?thesis using 2 a by simp
  qed
qed

lemma nameless_no_colon: "CHR '':'' \<notin> set (''__nameless_'' @ nat_toString n)"
  using nat_digits_set [of "Suc n" n] by (auto simp: nat_toString_def)

lemma refKey_colon: "CHR '':'' \<in> set (refKey name g)"
  by (simp add: refKey_def)

lemma nameless_not_refKey: "''__nameless_'' @ nat_toString n \<noteq> refKey name g"
  using nameless_no_colon refKey_colon by metis

lemma nameless_inj: "''__nameless_'' @ nat_toString n = ''__nameless_'' @ nat_toString m \<Longrightarrow> n = m"
  using nat_toString_inj by simp

lemma foldl_concat_map: "foldl (\<lambda>s m. foldl f s (g m)) st ms = foldl f st (concat (map g ms))"
  by (induction ms arbitrary: st) simp_all

lemma foldl_concat_rev: "foldl f st (concat (map g ms)) = foldl (\<lambda>s m. foldl f s (g m)) st ms"
  by (induction ms arbitrary: st) simp_all

lemma foldl_map_step: "foldl (\<lambda>s m. f s (g m)) st ms = foldl f st (map g ms)"
  by (induction ms arbitrary: st) simp_all

lemma parseReferences_fold:
  "parseReferences txt = pr_refs (foldl pr_step \<lparr>pr_refs = [], pr_nameless = 0\<rparr> (pr_occurrences txt))"
proof -
  have s: "pr_self = (\<lambda>s m. pr_step s (extractAttr (grp_or_empty m 1) ''name'', extractAttr (grp_or_empty m 1) ''group'', []))"
    by (rule ext, rule ext) (simp add: pr_self_def pr_step_def Let_def)
  have f: "pr_full = (\<lambda>s m. pr_step s (extractAttr (grp_or_empty m 1) ''name'', extractAttr (grp_or_empty m 1) ''group'', js_trim (grp_or_empty m 2)))"
    by (rule ext, rule ext) (simp add: pr_full_def pr_step_def Let_def)
  have t: "pr_template = (\<lambda>s m. foldl pr_step s (map (\<lambda>e. (Some (e_value e), None, [])) (filter e_isName (parseRTemplateEntries (grp_or_empty m 1)))))"
    by (rule ext, rule ext) (simp add: pr_template_def pr_step_def foldl_map)
  show ?thesis
    unfolding parseReferences_def pr_occurrences_def Let_def s f t
    by (simp add: foldl_map foldl_concat_rev)
qed

lemma occ_keys_length: "length (occ_keys n ocs) = length ocs"
  by (induction ocs arbitrary: n) simp_all

lemma occ_keys_snoc: "occ_keys n (ocs @ [oc]) = occ_keys n ocs @ [occ_key (n + unnamed ocs) oc]"
  by (induction ocs arbitrary: n) (simp_all add: unnamed_def)

lemma find_append_case: "find P (xs @ ys) = (case find P xs of None \<Rightarrow> find P ys | Some x \<Rightarrow> Some x)"
  by (induction xs) simp_all

lemma find_SomeD: "find P xs = Some x \<Longrightarrow> P x \<and> x \<in> set xs"
  by (induction xs) (auto split: if_splits)

lemma first_body_snoc:
  "first_body k (xs @ [(k', c)]) = (if first_body k xs \<noteq> [] then first_body k xs else if k' = k then c else [])"
  by (auto simp: first_body_def find_append_case split: option.splits dest: find_SomeD)

lemma first_body_absent: "k \<notin> fst ` set xs \<Longrightarrow> first_body k xs = []"
  by (auto simp: first_body_def find_None_iff split: option.splits dest!: find_Some_iff [THEN iffD1])

lemma keyed_bodies_snoc:
  "keyed_bodies (ocs @ [oc]) = keyed_bodies ocs @ [(occ_key (unnamed ocs) oc, occ_body oc)]"
  by (simp add: keyed_bodies_def occ_keys_snoc occ_keys_length)

lemma keyed_bodies_fst: "fst ` set (keyed_bodies ocs) = set (occ_keys 0 ocs)"
  by (metis keyed_bodies_def length_map map_fst_zip occ_keys_length set_map)

lemma pr_step_inv:
  assumes "pr_inv ocs st"
  shows "pr_inv (ocs @ [oc]) (pr_step st oc)"
proof -
  obtain name g c where oc: "oc = (name, g, c)" by (cases oc) auto
  let ?key = "occ_key (unnamed ocs) oc"
  have n: "pr_nameless st = unnamed ocs" and d: "distinct (map rf_id (pr_refs st))"
    and s: "set (map rf_id (pr_refs st)) = set (occ_keys 0 ocs)"
    and r: "\<And>r. r \<in> set (pr_refs st) \<Longrightarrow> contentWikitext r = first_body (rf_id r) (keyed_bodies ocs) \<and>
          length (rf_uses r) = count_list (occ_keys 0 ocs) (rf_id r)"
    using assms by (auto simp: pr_inv_def)
  have ids_mem: "\<And>q. q \<in> set (pr_refs st) \<Longrightarrow> rf_id q \<in> set (occ_keys 0 ocs)"
    using s by force
  have key: "pr_key st name = ?key" by (cases name) (simp_all add: pr_key_def occ_key_def nameless_key_def occ_name_def oc n)
  have cnt: "(if name = None then pr_nameless st + 1 else pr_nameless st) = unnamed (ocs @ [oc])"
    by (simp add: unnamed_def occ_name_def oc n)
  show ?thesis
  proof (cases "list_ex (\<lambda>r. rf_id r = ?key) (pr_refs st)")
    case True
    then obtain r1 where "r1 \<in> set (pr_refs st)" "rf_id r1 = ?key" by (auto simp: list_ex_iff)
    then have "?key \<in> set (map rf_id (pr_refs st))" by force
    then have mem: "?key \<in> set (occ_keys 0 ocs)" using s by simp
    have st': "pr_step st oc = \<lparr>pr_refs = map (\<lambda>r. if rf_id r = ?key
                 then (if c \<noteq> [] \<and> contentWikitext r = [] then r\<lparr>contentWikitext := c\<rparr> else r)
                        \<lparr>rf_uses := rf_uses (if c \<noteq> [] \<and> contentWikitext r = [] then r\<lparr>contentWikitext := c\<rparr> else r) @
                           [\<lparr>ru_index = length (rf_uses (if c \<noteq> [] \<and> contentWikitext r = [] then r\<lparr>contentWikitext := c\<rparr> else r)), ru_anchor = None\<rparr>]\<rparr>
                 else r) (pr_refs st), pr_nameless = unnamed (ocs @ [oc])\<rparr>"
      using True cnt by (simp add: pr_step_def getOrCreateRef_def Let_def key oc)
    have ids: "map rf_id (pr_refs (pr_step st oc)) = map rf_id (pr_refs st)"
      unfolding st' by (simp add: comp_def)
    show ?thesis
      unfolding pr_inv_def
    proof (intro conjI ballI)
      show "pr_nameless (pr_step st oc) = unnamed (ocs @ [oc])" unfolding st' by simp
      show "distinct (map rf_id (pr_refs (pr_step st oc)))" using ids d by simp
      show "set (map rf_id (pr_refs (pr_step st oc))) = set (occ_keys 0 (ocs @ [oc]))"
        using ids s mem by (auto simp: occ_keys_snoc)
    next
      fix q assume "q \<in> set (pr_refs (pr_step st oc))"
      then obtain r0 where r0: "r0 \<in> set (pr_refs st)"
        and q: "q = (if rf_id r0 = ?key
                 then (if c \<noteq> [] \<and> contentWikitext r0 = [] then r0\<lparr>contentWikitext := c\<rparr> else r0)
                        \<lparr>rf_uses := rf_uses (if c \<noteq> [] \<and> contentWikitext r0 = [] then r0\<lparr>contentWikitext := c\<rparr> else r0) @
                           [\<lparr>ru_index = length (rf_uses (if c \<noteq> [] \<and> contentWikitext r0 = [] then r0\<lparr>contentWikitext := c\<rparr> else r0)), ru_anchor = None\<rparr>]\<rparr>
                 else r0)"
        unfolding st' by auto
      have body: "occ_body oc = c" by (simp add: occ_body_def oc)
      show "contentWikitext q = first_body (rf_id q) (keyed_bodies (ocs @ [oc]))"
        using r [OF r0] by (auto simp: q keyed_bodies_snoc first_body_snoc body)
      show "length (rf_uses q) = count_list (occ_keys 0 (ocs @ [oc])) (rf_id q)"
        using r [OF r0] by (auto simp: q occ_keys_snoc)
    qed
  next
    case False
    then have "?key \<notin> set (map rf_id (pr_refs st))" by (auto simp: list_ex_iff)
    then have nmem: "?key \<notin> set (occ_keys 0 ocs)" using s by simp
    have st': "pr_step st oc = \<lparr>pr_refs = pr_refs st @
                 [\<lparr>rf_id = ?key, rf_name = name, rf_group = g, contentWikitext = c,
                   rf_uses = [\<lparr>ru_index = 0, ru_anchor = None\<rparr>]\<rparr>], pr_nameless = unnamed (ocs @ [oc])\<rparr>"
      using False cnt by (simp add: pr_step_def getOrCreateRef_def Let_def key oc)
    have body: "occ_body oc = c" by (simp add: occ_body_def oc)
    have fb: "first_body ?key (keyed_bodies ocs) = []"
      by (rule first_body_absent) (simp add: keyed_bodies_fst nmem)
    show ?thesis
      unfolding pr_inv_def
    proof (intro conjI ballI)
      show "pr_nameless (pr_step st oc) = unnamed (ocs @ [oc])" unfolding st' by simp
      show "distinct (map rf_id (pr_refs (pr_step st oc)))" using d s nmem unfolding st' by auto
      show "set (map rf_id (pr_refs (pr_step st oc))) = set (occ_keys 0 (ocs @ [oc]))"
        using s unfolding st' by (auto simp: occ_keys_snoc)
    next
      fix q assume "q \<in> set (pr_refs (pr_step st oc))"
      then consider (old) "q \<in> set (pr_refs st)"
        | (new) "q = \<lparr>rf_id = ?key, rf_name = name, rf_group = g, contentWikitext = c, rf_uses = [\<lparr>ru_index = 0, ru_anchor = None\<rparr>]\<rparr>"
        unfolding st' by auto
      then show "contentWikitext q = first_body (rf_id q) (keyed_bodies (ocs @ [oc]))"
      proof cases
        case old
        then have "rf_id q \<noteq> ?key" using ids_mem [of q] nmem by auto
        then show ?thesis using r [OF old] by (auto simp: keyed_bodies_snoc first_body_snoc)
      next
        case new
        then show ?thesis using fb by (simp add: keyed_bodies_snoc first_body_snoc body)
      qed
      from \<open>q \<in> set (pr_refs (pr_step st oc))\<close> consider (old) "q \<in> set (pr_refs st)"
        | (new) "q = \<lparr>rf_id = ?key, rf_name = name, rf_group = g, contentWikitext = c, rf_uses = [\<lparr>ru_index = 0, ru_anchor = None\<rparr>]\<rparr>"
        unfolding st' by auto
      then show "length (rf_uses q) = count_list (occ_keys 0 (ocs @ [oc])) (rf_id q)"
      proof cases
        case old
        then have "rf_id q \<noteq> ?key" using ids_mem [of q] nmem by auto
        then show ?thesis using r [OF old] by (auto simp: occ_keys_snoc)
      next
        case new
        then show ?thesis using nmem by (simp add: occ_keys_snoc count_list_0_iff)
      qed
    qed
  qed
qed

lemma pr_fold_inv: "pr_inv ocs (foldl pr_step \<lparr>pr_refs = [], pr_nameless = 0\<rparr> ocs)"
proof (induction ocs rule: rev_induct)
  case Nil
  then show ?case by (simp add: pr_inv_def unnamed_def)
next
  case (snoc oc ocs)
  then show ?case using pr_step_inv by simp
qed

lemma parseReferences_inv:
  "\<exists>st. pr_refs st = parseReferences txt \<and> pr_inv (pr_occurrences txt) st"
  using pr_fold_inv parseReferences_fold by metis



lemma nameless_key_not_refKey: "nameless_key n \<noteq> refKey name g"
  unfolding nameless_key_def by (rule nameless_not_refKey)

lemma nameless_key_inj: "nameless_key n = nameless_key m \<Longrightarrow> n = m"
  unfolding nameless_key_def by (rule nameless_inj)

lemma find_ref_None_iff: "find_ref rs k = None \<longleftrightarrow> k \<notin> ref_key ` set rs"
  by (auto simp: find_ref_def find_None_iff)


lemma upd_ref_absent: "k \<notin> ref_key ` set rs \<Longrightarrow> upd_ref k f rs = rs"
  unfolding upd_ref_def by (induction rs) auto

lemma upd_ref_snoc_new:
  "k \<notin> ref_key ` set rs \<Longrightarrow> ref_key r = k \<Longrightarrow> upd_ref k f (rs @ [r]) = rs @ [f r]"
  using upd_ref_absent [of k rs f] by (simp add: upd_ref_def)

lemma key_inv_nameless_fresh:
  assumes "key_inv st"
  shows "nameless_key (ps_nameless st) \<notin> ref_key ` set (ps_refs st)"
proof
  assume "nameless_key (ps_nameless st) \<in> ref_key ` set (ps_refs st)"
  then obtain r where r: "r \<in> set (ps_refs st)" "ref_key r = nameless_key (ps_nameless st)" by auto
  show False
  proof (cases "truthy (ref_name r)")
    case True
    then have "ref_key r = refKey (ref_name r) (ref_group r)" using assms r(1) by (simp add: key_inv_def)
    then show False using r(2) nameless_key_not_refKey by metis
  next
    case False
    then obtain i where "i < ps_nameless st" "ref_key r = nameless_key i"
      using assms r(1) unfolding key_inv_def by blast
    then show False using r(2) nameless_key_inj by force
  qed
qed

lemma push_occurrence_cases:
  assumes "key_inv st"
  obtains
    (existing) r where "truthy (of_opt name)" "find_ref (ps_refs st) (refKey (of_opt name) g) = Some r"
      "push_occurrence f name g mk st =
         st\<lparr>ps_uid := ps_uid st + 1, ps_refs := upd_ref (refKey (of_opt name) g) (f (mk (ps_uid st))) (ps_refs st)\<rparr>"
  | (named) "truthy (of_opt name)" "refKey (of_opt name) g \<notin> ref_key ` set (ps_refs st)"
      "push_occurrence f name g mk st =
         st\<lparr>ps_uid := ps_uid st + 1,
            ps_refs := ps_refs st @ [f (mk (ps_uid st)) (new_record (refKey (of_opt name) g) name g)]\<rparr>"
  | (nameless) "\<not> truthy (of_opt name)" "nameless_key (ps_nameless st) \<notin> ref_key ` set (ps_refs st)"
      "push_occurrence f name g mk st =
         st\<lparr>ps_nameless := ps_nameless st + 1, ps_uid := ps_uid st + 1,
            ps_refs := ps_refs st @ [f (mk (ps_uid st)) (new_record (nameless_key (ps_nameless st)) name g)]\<rparr>"
proof (cases "truthy (of_opt name)")
  case True
  show ?thesis
  proof (cases "find_ref (ps_refs st) (refKey (of_opt name) g)")
    case None
    then have a: "refKey (of_opt name) g \<notin> ref_key ` set (ps_refs st)" by (simp add: find_ref_None_iff)
    have "push_occurrence f name g mk st =
         st\<lparr>ps_uid := ps_uid st + 1,
            ps_refs := ps_refs st @ [f (mk (ps_uid st)) (new_record (refKey (of_opt name) g) name g)]\<rparr>"
      using True None upd_ref_snoc_new [OF a, of "new_record (refKey (of_opt name) g) name g" "f (mk (ps_uid st))"]
      by (simp add: push_occurrence_def getRef_def Let_def new_record_def)
    then show ?thesis using named True a by blast
  next
    case (Some r)
    have "push_occurrence f name g mk st =
         st\<lparr>ps_uid := ps_uid st + 1, ps_refs := upd_ref (refKey (of_opt name) g) (f (mk (ps_uid st))) (ps_refs st)\<rparr>"
      using True Some by (simp add: push_occurrence_def getRef_def Let_def)
    then show ?thesis using existing True Some by blast
  qed
next
  case False
  have a: "nameless_key (ps_nameless st) \<notin> ref_key ` set (ps_refs st)"
    using key_inv_nameless_fresh [OF assms] .
  then have n: "find_ref (ps_refs st) (nameless_key (ps_nameless st)) = None" by (simp add: find_ref_None_iff)
  have "push_occurrence f name g mk st =
         st\<lparr>ps_nameless := ps_nameless st + 1, ps_uid := ps_uid st + 1,
            ps_refs := ps_refs st @ [f (mk (ps_uid st)) (new_record (nameless_key (ps_nameless st)) name g)]\<rparr>"
    using False n upd_ref_snoc_new [OF a, of "new_record (nameless_key (ps_nameless st)) name g" "f (mk (ps_uid st))"]
    by (simp add: push_occurrence_def getRef_def Let_def new_record_def nameless_key_def)
  then show ?thesis using nameless False a by blast
qed

lemma attaches_fields:
  assumes "attaches f"
  shows "ref_key (f u r) = ref_key r" "ref_id (f u r) = ref_id r" "ref_name (f u r) = ref_name r"
    "ref_group (f u r) = ref_group r" "canonical (f u r) = canonical r"
    "length (uses (f u r)) + length (ldrDefinitions (f u r)) = Suc (length (uses r) + length (ldrDefinitions r))"
  using assms by (auto simp: attaches_def attach_def_def attach_use_def attach_ldr_def)

lemma attaches_defs:
  assumes "attaches f" "f = attach_def \<longrightarrow> ldrDefinitions r = []"
  shows "definitions (f u r) @ ldrDefinitions (f u r) = definitions r @ ldrDefinitions r \<or>
         definitions (f u r) @ ldrDefinitions (f u r) = (definitions r @ ldrDefinitions r) @ [u]"
  using assms by (auto simp: attaches_def attach_def_def attach_use_def attach_ldr_def)

lemma attaches_no_ldr:
  assumes "attaches f" "f \<noteq> attach_ldr"
  shows "ldrDefinitions (f u r) = ldrDefinitions r"
  using assms by (auto simp: attaches_def attach_def_def attach_use_def)

lemma new_record_fields:
  "ref_key (new_record k name g) = k" "ref_id (new_record k name g) = k" "ref_name (new_record k name g) = of_opt name"
  "ref_group (new_record k name g) = g" "canonical (new_record k name g) = None"
  "uses (new_record k name g) = []" "ldrDefinitions (new_record k name g) = []" "definitions (new_record k name g) = []"
  by (simp_all add: new_record_def)

lemma upd_ref_keys_same: "(\<And>r. ref_key (f r) = ref_key r) \<Longrightarrow> map ref_key (upd_ref k f rs) = map ref_key rs"
  unfolding upd_ref_def by (induction rs) auto

lemma upd_ref_mem:
  "q \<in> set (upd_ref k f rs) \<Longrightarrow> (q \<in> set rs \<and> ref_key q \<noteq> k) \<or> (\<exists>r \<in> set rs. ref_key r = k \<and> q = f r)"
  unfolding upd_ref_def by auto

lemma key_inv_push:
  assumes k: "key_inv st" and f: "attaches f"
  shows "key_inv (push_occurrence f name g mk st)"
  using k
proof (cases rule: push_occurrence_cases [where name = name and g = g and f = f and mk = mk])
  case (existing r)
  let ?key = "refKey (of_opt name) g"
  let ?u = "mk (ps_uid st)"
  have keys: "map ref_key (upd_ref ?key (f ?u) (ps_refs st)) = map ref_key (ps_refs st)"
    by (rule upd_ref_keys_same) (simp add: attaches_fields [OF f])
  have old: "\<And>q. q \<in> set (ps_refs st) \<Longrightarrow>
          ref_id q = ref_key q \<and> canonical q = None \<and> (\<exists>n. ref_name q = of_opt n) \<and>
          (truthy (ref_name q) \<longrightarrow> ref_key q = refKey (ref_name q) (ref_group q)) \<and>
          (\<not> truthy (ref_name q) \<longrightarrow>
             (\<exists>i < ps_nameless st. ref_key q = nameless_key i) \<and> length (uses q) + length (ldrDefinitions q) = 1)"
    using k unfolding key_inv_def by blast
  have named: "\<And>q. q \<in> set (ps_refs st) \<Longrightarrow> ref_key q = ?key \<Longrightarrow> truthy (ref_name q)"
    using old nameless_key_not_refKey by metis
  show ?thesis
    unfolding key_inv_def existing(3)
  proof (rule conjI [OF _ ballI])
    show "distinct (map ref_key (ps_refs (st\<lparr>ps_uid := ps_uid st + 1, ps_refs := upd_ref ?key (f ?u) (ps_refs st)\<rparr>)))"
      using keys k by (simp add: key_inv_def)
  next
    fix q assume "q \<in> set (ps_refs (st\<lparr>ps_uid := ps_uid st + 1, ps_refs := upd_ref ?key (f ?u) (ps_refs st)\<rparr>))"
    then have "q \<in> set (upd_ref ?key (f ?u) (ps_refs st))" by simp
    then consider (same) "q \<in> set (ps_refs st)" "ref_key q \<noteq> ?key"
      | (changed) r0 where "r0 \<in> set (ps_refs st)" "ref_key r0 = ?key" "q = f ?u r0"
      using upd_ref_mem by blast
    then show "ref_id q = ref_key q \<and> canonical q = None \<and> (\<exists>n. ref_name q = of_opt n) \<and>
          (truthy (ref_name q) \<longrightarrow> ref_key q = refKey (ref_name q) (ref_group q)) \<and>
          (\<not> truthy (ref_name q) \<longrightarrow>
             (\<exists>i < ps_nameless (st\<lparr>ps_uid := ps_uid st + 1, ps_refs := upd_ref ?key (f ?u) (ps_refs st)\<rparr>). ref_key q = nameless_key i) \<and>
             length (uses q) + length (ldrDefinitions q) = 1)"
    proof cases
      case same
      then show ?thesis using old [of q] by simp
    next
      case changed
      then show ?thesis using old [of r0] named [of r0] by (simp add: attaches_fields [OF f])
    qed
  qed
next
  case named
  let ?key = "refKey (of_opt name) g"
  let ?new = "f (mk (ps_uid st)) (new_record ?key name g)"
  have old: "\<And>q. q \<in> set (ps_refs st) \<Longrightarrow>
          ref_id q = ref_key q \<and> canonical q = None \<and> (\<exists>n. ref_name q = of_opt n) \<and>
          (truthy (ref_name q) \<longrightarrow> ref_key q = refKey (ref_name q) (ref_group q)) \<and>
          (\<not> truthy (ref_name q) \<longrightarrow>
             (\<exists>i < ps_nameless st. ref_key q = nameless_key i) \<and> length (uses q) + length (ldrDefinitions q) = 1)"
    using k unfolding key_inv_def by blast
  have new: "ref_key ?new = ?key" "ref_id ?new = ?key" "ref_name ?new = of_opt name" "ref_group ?new = g"
    "canonical ?new = None"
    by (simp_all add: attaches_fields [OF f] new_record_fields)
  show ?thesis
    unfolding key_inv_def named(3)
  proof (rule conjI [OF _ ballI])
    show "distinct (map ref_key (ps_refs (st\<lparr>ps_uid := ps_uid st + 1, ps_refs := ps_refs st @ [?new]\<rparr>)))"
      using k named(2) new(1) by (simp add: key_inv_def)
  next
    fix q assume "q \<in> set (ps_refs (st\<lparr>ps_uid := ps_uid st + 1, ps_refs := ps_refs st @ [?new]\<rparr>))"
    then consider (same) "q \<in> set (ps_refs st)" | (fresh) "q = ?new" by auto
    then show "ref_id q = ref_key q \<and> canonical q = None \<and> (\<exists>n. ref_name q = of_opt n) \<and>
          (truthy (ref_name q) \<longrightarrow> ref_key q = refKey (ref_name q) (ref_group q)) \<and>
          (\<not> truthy (ref_name q) \<longrightarrow>
             (\<exists>i < ps_nameless (st\<lparr>ps_uid := ps_uid st + 1, ps_refs := ps_refs st @ [?new]\<rparr>). ref_key q = nameless_key i) \<and>
             length (uses q) + length (ldrDefinitions q) = 1)"
    proof cases
      case same
      then show ?thesis using old [of q] by simp
    next
      case fresh
      then show ?thesis using new named(1) by auto
    qed
  qed
next
  case nameless
  let ?key = "nameless_key (ps_nameless st)"
  let ?new = "f (mk (ps_uid st)) (new_record ?key name g)"
  have old: "\<And>q. q \<in> set (ps_refs st) \<Longrightarrow>
          ref_id q = ref_key q \<and> canonical q = None \<and> (\<exists>n. ref_name q = of_opt n) \<and>
          (truthy (ref_name q) \<longrightarrow> ref_key q = refKey (ref_name q) (ref_group q)) \<and>
          (\<not> truthy (ref_name q) \<longrightarrow>
             (\<exists>i < ps_nameless st. ref_key q = nameless_key i) \<and> length (uses q) + length (ldrDefinitions q) = 1)"
    using k unfolding key_inv_def by blast
  have new: "ref_key ?new = ?key" "ref_id ?new = ?key" "ref_name ?new = of_opt name" "ref_group ?new = g"
    "canonical ?new = None" "length (uses ?new) + length (ldrDefinitions ?new) = 1"
    by (simp_all add: attaches_fields [OF f] new_record_fields)
  show ?thesis
    unfolding key_inv_def nameless(3)
  proof (rule conjI [OF _ ballI])
    show "distinct (map ref_key (ps_refs (st\<lparr>ps_nameless := ps_nameless st + 1, ps_uid := ps_uid st + 1, ps_refs := ps_refs st @ [?new]\<rparr>)))"
      using k nameless(2) new(1) by (simp add: key_inv_def)
  next
    fix q assume "q \<in> set (ps_refs (st\<lparr>ps_nameless := ps_nameless st + 1, ps_uid := ps_uid st + 1, ps_refs := ps_refs st @ [?new]\<rparr>))"
    then consider (same) "q \<in> set (ps_refs st)" | (fresh) "q = ?new" by auto
    then show "ref_id q = ref_key q \<and> canonical q = None \<and> (\<exists>n. ref_name q = of_opt n) \<and>
          (truthy (ref_name q) \<longrightarrow> ref_key q = refKey (ref_name q) (ref_group q)) \<and>
          (\<not> truthy (ref_name q) \<longrightarrow>
             (\<exists>i < ps_nameless (st\<lparr>ps_nameless := ps_nameless st + 1, ps_uid := ps_uid st + 1, ps_refs := ps_refs st @ [?new]\<rparr>). ref_key q = nameless_key i) \<and>
             length (uses q) + length (ldrDefinitions q) = 1)"
    proof cases
      case same
      show ?thesis
      proof (cases "truthy (ref_name q)")
        case True
        then show ?thesis using old [OF same] by simp
      next
        case False
        then obtain i where "i < ps_nameless st" "ref_key q = nameless_key i" using old [OF same] by blast
        then have "\<exists>i < Suc (ps_nameless st). ref_key q = nameless_key i" using less_SucI by blast
        then show ?thesis using old [OF same] False by simp
      qed
    next
      case fresh
      then show ?thesis using new nameless(1) by auto
    qed
  qed
qed

lemma sorted_uid_snoc:
  "sorted_wrt (<) (map u_uid xs) \<Longrightarrow> \<forall>x \<in> set xs. u_uid x < u_uid u \<Longrightarrow> sorted_wrt (<) (map u_uid (xs @ [u]))"
  by (simp add: sorted_wrt_append)

lemma uid_inv_record:
  assumes f: "attaches f" and l: "f = attach_def \<longrightarrow> ldrDefinitions r = []"
    and s: "sorted_wrt (<) (map u_uid (definitions r @ ldrDefinitions r))"
    and b: "\<forall>u \<in> set (definitions r @ ldrDefinitions r). u_uid u < n" and u: "u_uid u = n"
  shows "sorted_wrt (<) (map u_uid (definitions (f u r) @ ldrDefinitions (f u r))) \<and>
         (\<forall>x \<in> set (definitions (f u r) @ ldrDefinitions (f u r)). u_uid x < Suc n)"
proof -
  consider "definitions (f u r) @ ldrDefinitions (f u r) = definitions r @ ldrDefinitions r"
    | "definitions (f u r) @ ldrDefinitions (f u r) = (definitions r @ ldrDefinitions r) @ [u]"
    using attaches_defs [OF f l] by blast
  then show ?thesis
  proof cases
    case 1
    have "\<forall>x \<in> set (definitions r @ ldrDefinitions r). u_uid x < Suc n"
      using b less_SucI by blast
    then show ?thesis using s unfolding 1 by blast
  next
    case 2
    have "sorted_wrt (<) (map u_uid ((definitions r @ ldrDefinitions r) @ [u]))"
      using s b u by (intro sorted_uid_snoc) auto
    moreover have "\<forall>x \<in> set ((definitions r @ ldrDefinitions r) @ [u]). u_uid x < Suc n"
    proof
      fix x assume "x \<in> set ((definitions r @ ldrDefinitions r) @ [u])"
      then consider "x \<in> set (definitions r @ ldrDefinitions r)" | "x = u" by auto
      then show "u_uid x < Suc n" using b u less_SucI by cases blast+
    qed
    ultimately show ?thesis unfolding 2 by blast
  qed
qed

lemma uid_inv_push:
  assumes k: "key_inv st" and i: "uid_inv st" and f: "attaches f" and l: "f = attach_def \<longrightarrow> no_ldr st"
    and m: "\<And>n. u_uid (mk n) = n"
  shows "uid_inv (push_occurrence f name g mk st)"
proof -
  let ?u = "mk (ps_uid st)"
  have old: "\<And>q. q \<in> set (ps_refs st) \<Longrightarrow>
     sorted_wrt (<) (map u_uid (definitions q @ ldrDefinitions q)) \<and>
     (\<forall>u \<in> set (definitions q @ ldrDefinitions q). u_uid u < ps_uid st)"
    using i unfolding uid_inv_def by blast
  have old': "\<And>q. q \<in> set (ps_refs st) \<Longrightarrow>
     sorted_wrt (<) (map u_uid (definitions q @ ldrDefinitions q)) \<and>
     (\<forall>u \<in> set (definitions q @ ldrDefinitions q). u_uid u < Suc (ps_uid st))"
    using old less_SucI by blast
  have upd: "\<And>q. q \<in> set (ps_refs st) \<Longrightarrow>
     sorted_wrt (<) (map u_uid (definitions (f ?u q) @ ldrDefinitions (f ?u q))) \<and>
     (\<forall>x \<in> set (definitions (f ?u q) @ ldrDefinitions (f ?u q)). u_uid x < Suc (ps_uid st))"
  proof -
    fix q assume q: "q \<in> set (ps_refs st)"
    have "f = attach_def \<longrightarrow> ldrDefinitions q = []" using l q by (auto simp: no_ldr_def)
    then show "sorted_wrt (<) (map u_uid (definitions (f ?u q) @ ldrDefinitions (f ?u q))) \<and>
     (\<forall>x \<in> set (definitions (f ?u q) @ ldrDefinitions (f ?u q)). u_uid x < Suc (ps_uid st))"
      using uid_inv_record [OF f _ _ _ m, of q "ps_uid st"] old [OF q] by blast
  qed
  have new: "\<And>key. sorted_wrt (<) (map u_uid (definitions (f ?u (new_record key name g)) @ ldrDefinitions (f ?u (new_record key name g)))) \<and>
     (\<forall>x \<in> set (definitions (f ?u (new_record key name g)) @ ldrDefinitions (f ?u (new_record key name g))). u_uid x < Suc (ps_uid st))"
    by (rule uid_inv_record [OF f _ _ _ m]) (simp_all add: new_record_fields)
  show ?thesis
    using k
  proof (cases rule: push_occurrence_cases [where name = name and g = g and f = f and mk = mk])
    case (existing r)
    show ?thesis
      unfolding uid_inv_def existing(3)
    proof
      fix q assume "q \<in> set (ps_refs (st\<lparr>ps_uid := ps_uid st + 1, ps_refs := upd_ref (refKey (of_opt name) g) (f ?u) (ps_refs st)\<rparr>))"
      then have "q \<in> set (upd_ref (refKey (of_opt name) g) (f ?u) (ps_refs st))" by simp
      then consider (same) "q \<in> set (ps_refs st)"
        | (changed) r0 where "r0 \<in> set (ps_refs st)" "q = f ?u r0"
        using upd_ref_mem by blast
      then show "sorted_wrt (<) (map u_uid (definitions q @ ldrDefinitions q)) \<and>
         (\<forall>u \<in> set (definitions q @ ldrDefinitions q).
            u_uid u < ps_uid (st\<lparr>ps_uid := ps_uid st + 1, ps_refs := upd_ref (refKey (of_opt name) g) (f ?u) (ps_refs st)\<rparr>))"
      proof cases
        case same
        then show ?thesis using old' by simp
      next
        case changed
        then show ?thesis using upd by simp
      qed
    qed
  next
    case named
    show ?thesis
      unfolding uid_inv_def named(3)
    proof
      fix q assume "q \<in> set (ps_refs (st\<lparr>ps_uid := ps_uid st + 1,
            ps_refs := ps_refs st @ [f ?u (new_record (refKey (of_opt name) g) name g)]\<rparr>))"
      then consider (same) "q \<in> set (ps_refs st)" | (fresh) "q = f ?u (new_record (refKey (of_opt name) g) name g)" by auto
      then show "sorted_wrt (<) (map u_uid (definitions q @ ldrDefinitions q)) \<and>
         (\<forall>u \<in> set (definitions q @ ldrDefinitions q).
            u_uid u < ps_uid (st\<lparr>ps_uid := ps_uid st + 1,
            ps_refs := ps_refs st @ [f ?u (new_record (refKey (of_opt name) g) name g)]\<rparr>))"
      proof cases
        case same
        then show ?thesis using old' by simp
      next
        case fresh
        then show ?thesis using new by simp
      qed
    qed
  next
    case nameless
    show ?thesis
      unfolding uid_inv_def nameless(3)
    proof
      fix q assume "q \<in> set (ps_refs (st\<lparr>ps_nameless := ps_nameless st + 1, ps_uid := ps_uid st + 1,
            ps_refs := ps_refs st @ [f ?u (new_record (nameless_key (ps_nameless st)) name g)]\<rparr>))"
      then consider (same) "q \<in> set (ps_refs st)" | (fresh) "q = f ?u (new_record (nameless_key (ps_nameless st)) name g)" by auto
      then show "sorted_wrt (<) (map u_uid (definitions q @ ldrDefinitions q)) \<and>
         (\<forall>u \<in> set (definitions q @ ldrDefinitions q).
            u_uid u < ps_uid (st\<lparr>ps_nameless := ps_nameless st + 1, ps_uid := ps_uid st + 1,
            ps_refs := ps_refs st @ [f ?u (new_record (nameless_key (ps_nameless st)) name g)]\<rparr>))"
      proof cases
        case same
        then show ?thesis using old' by simp
      next
        case fresh
        then show ?thesis using new by simp
      qed
    qed
  qed
qed

lemma no_ldr_push:
  assumes k: "key_inv st" and n: "no_ldr st" and f: "attaches f" and l: "f \<noteq> attach_ldr"
  shows "no_ldr (push_occurrence f name g mk st)"
  using k
proof (cases rule: push_occurrence_cases [where name = name and g = g and f = f and mk = mk])
  case (existing r)
  show ?thesis
    unfolding no_ldr_def existing(3)
  proof
    fix q assume "q \<in> set (ps_refs (st\<lparr>ps_uid := ps_uid st + 1, ps_refs := upd_ref (refKey (of_opt name) g) (f (mk (ps_uid st))) (ps_refs st)\<rparr>))"
    then have "q \<in> set (upd_ref (refKey (of_opt name) g) (f (mk (ps_uid st))) (ps_refs st))" by simp
    then consider (same) "q \<in> set (ps_refs st)"
      | (changed) r0 where "r0 \<in> set (ps_refs st)" "q = f (mk (ps_uid st)) r0"
      using upd_ref_mem by blast
    then show "ldrDefinitions q = []"
      using n attaches_no_ldr [OF f l] by cases (auto simp: no_ldr_def)
  qed
next
  case named
  then show ?thesis using n attaches_no_ldr [OF f l] by (auto simp: no_ldr_def new_record_fields)
next
  case nameless
  then show ?thesis using n attaches_no_ldr [OF f l] by (auto simp: no_ldr_def new_record_fields)
qed

lemma attaches_simps: "attaches attach_def" "attaches attach_use" "attaches attach_ldr"
  by (simp_all add: attaches_def)

lemma attach_distinct: "attach_def \<noteq> attach_ldr" "attach_use \<noteq> attach_ldr" "attach_use \<noteq> attach_def"
proof -
  let ?u = "\<lparr>u_uid = 0, u_name = None, u_group = None, u_start = 0, u_end = 0, u_kind = full, u_content = None, u_rTemplateId = None\<rparr>"
  let ?r = "new_record [] None None"
  have "ldrDefinitions (attach_def ?u ?r) \<noteq> ldrDefinitions (attach_ldr ?u ?r)"
    by (simp add: attach_def_def attach_ldr_def new_record_def)
  then show "attach_def \<noteq> attach_ldr" by metis
  have "ldrDefinitions (attach_use ?u ?r) \<noteq> ldrDefinitions (attach_ldr ?u ?r)"
    by (simp add: attach_use_def attach_ldr_def new_record_def)
  then show "attach_use \<noteq> attach_ldr" by metis
  have "definitions (attach_use ?u ?r) \<noteq> definitions (attach_def ?u ?r)"
    by (simp add: attach_use_def attach_def_def new_record_def)
  then show "attach_use \<noteq> attach_def" by metis
qed

lemma add_full_push:
  "add_full tpls st m =
     (if inTemplateRange (int (m_index m)) tpls then st
      else push_occurrence attach_def (extractAttr (grp_or_empty m 1) ''name'') (extractAttr (grp_or_empty m 1) ''group'')
             (\<lambda>n. \<lparr>u_uid = n, u_name = extractAttr (grp_or_empty m 1) ''name'', u_group = extractAttr (grp_or_empty m 1) ''group'',
                    u_start = int (m_index m), u_end = int (m_index m) + int (length (m_text m)), u_kind = full,
                    u_content = Some (grp_or_empty m 2), u_rTemplateId = None\<rparr>) st)"
  by (simp add: add_full_def push_occurrence_def Let_def attach_def_def [abs_def] split: prod.splits)

lemma add_self_push:
  "add_self tpls st m =
     (if inTemplateRange (int (m_index m)) tpls then st
      else push_occurrence attach_use (extractAttr (grp_or_empty m 1) ''name'') (extractAttr (grp_or_empty m 1) ''group'')
             (\<lambda>n. \<lparr>u_uid = n, u_name = extractAttr (grp_or_empty m 1) ''name'', u_group = extractAttr (grp_or_empty m 1) ''group'',
                    u_start = int (m_index m), u_end = int (m_index m) + int (length (m_text m)), u_kind = selfClosing,
                    u_content = None, u_rTemplateId = None\<rparr>) st)"
  by (simp add: add_self_def push_occurrence_def Let_def attach_use_def [abs_def] split: prod.splits)

lemma add_r_name_push:
  "add_r_name idx e tplId st entry =
     push_occurrence attach_use (Some (e_value entry)) None
       (\<lambda>n. \<lparr>u_uid = n, u_name = Some (e_value entry), u_group = None, u_start = idx, u_end = e, u_kind = templateR,
              u_content = None, u_rTemplateId = Some tplId\<rparr>) st"
  by (simp add: add_r_name_def push_occurrence_def Let_def attach_use_def [abs_def] split: prod.splits)

lemma add_ldr_push:
  "add_ldr basePos st m =
     push_occurrence attach_ldr (extractAttr (grp_or_empty m 1) ''name'') (extractAttr (grp_or_empty m 1) ''group'')
       (\<lambda>n. \<lparr>u_uid = n, u_name = extractAttr (grp_or_empty m 1) ''name'', u_group = extractAttr (grp_or_empty m 1) ''group'',
              u_start = basePos + int (m_index m), u_end = basePos + int (m_index m) + int (length (m_text m)), u_kind = full,
              u_content = Some (grp_or_empty m 2), u_rTemplateId = None\<rparr>) st"
  by (simp add: add_ldr_def push_occurrence_def Let_def attach_ldr_def [abs_def] split: prod.splits)

lemma inv_push_early:
  assumes "parse_inv st \<and> no_ldr st" "f = attach_def \<or> f = attach_use" "\<And>n. u_uid (mk n) = n"
  shows "parse_inv (push_occurrence f name g mk st) \<and> no_ldr (push_occurrence f name g mk st)"
proof -
  have a: "attaches f" using assms(2) by (auto simp: attaches_def)
  have b: "f \<noteq> attach_ldr" using assms(2) attach_distinct by auto
  show ?thesis
    using assms(1) key_inv_push [OF _ a] uid_inv_push [OF _ _ a _ assms(3)] no_ldr_push [OF _ _ a b]
    by (simp add: parse_inv_def)
qed

lemma inv_push_late:
  assumes "parse_inv st" "\<And>n. u_uid (mk n) = n"
  shows "parse_inv (push_occurrence attach_ldr name g mk st)"
  using assms(1) key_inv_push [OF _ attaches_simps(3)] uid_inv_push [OF _ _ attaches_simps(3) _ assms(2)] attach_distinct
  by (simp add: parse_inv_def)

lemma add_full_inv: "parse_inv st \<and> no_ldr st \<Longrightarrow> parse_inv (add_full tpls st m) \<and> no_ldr (add_full tpls st m)"
  unfolding add_full_push using inv_push_early by simp

lemma add_self_inv: "parse_inv st \<and> no_ldr st \<Longrightarrow> parse_inv (add_self tpls st m) \<and> no_ldr (add_self tpls st m)"
  unfolding add_self_push using inv_push_early by simp

lemma add_r_name_inv:
  "parse_inv st \<and> no_ldr st \<Longrightarrow> parse_inv (add_r_name idx e tplId st entry) \<and> no_ldr (add_r_name idx e tplId st entry)"
  unfolding add_r_name_push using inv_push_early by simp

lemma foldl_inv: "(\<And>s x. P s \<Longrightarrow> P (f s x)) \<Longrightarrow> P st \<Longrightarrow> P (foldl f st xs)"
  by (induction xs arbitrary: st) simp_all

lemma inv_rTemplates:
  "(parse_inv (st\<lparr>ps_rTemplates := x\<rparr>) \<and> no_ldr (st\<lparr>ps_rTemplates := x\<rparr>)) = (parse_inv st \<and> no_ldr st)"
  by (simp add: parse_inv_def key_inv_def uid_inv_def no_ldr_def)

lemma add_rTemplate_inv:
  assumes "parse_inv st \<and> no_ldr st"
  shows "parse_inv (add_rTemplate tpls st m) \<and> no_ldr (add_rTemplate tpls st m)"
proof (cases "inTemplateRange (int (m_index m)) tpls")
  case True
  then show ?thesis using assms by (simp add: add_rTemplate_def)
next
  case False
  let ?st1 = "st\<lparr>ps_rTemplates := ps_rTemplates st @
                 [\<lparr>rt_id = length (ps_rTemplates st), rt_start = int (m_index m),
                   rt_end = int (m_index m) + int (length (m_text m)),
                   rt_entries = parseRTemplateEntries (grp_or_empty m 1)\<rparr>]\<rparr>"
  have e: "add_rTemplate tpls st m =
      foldl (add_r_name (int (m_index m)) (int (m_index m) + int (length (m_text m))) (length (ps_rTemplates st))) ?st1
        (filter e_isName (parseRTemplateEntries (grp_or_empty m 1)))"
    using False by (simp add: add_rTemplate_def Let_def)
  have "parse_inv ?st1 \<and> no_ldr ?st1" using assms inv_rTemplates by blast
  then show ?thesis
    unfolding e by (rule foldl_inv [where P = "\<lambda>s. parse_inv s \<and> no_ldr s", rotated]) (rule add_r_name_inv)
qed

lemma add_ldr_inv: "parse_inv st \<Longrightarrow> parse_inv (add_ldr basePos st m)"
  unfolding add_ldr_push using inv_push_late by simp

lemma add_template_inv: "parse_inv st \<Longrightarrow> parse_inv (add_template st tpl)"
  unfolding add_template_def Let_def
  by (auto split: option.splits intro: foldl_inv [where P = parse_inv] add_ldr_inv)

lemma parseWikitext_state:
  "\<exists>st. parse_inv st \<and> refs (parseWikitext txt names) = ps_refs st"
proof -
  let ?tpls = "findTemplates txt names"
  let ?st0 = "\<lparr>ps_refs = [], ps_nameless = 0, ps_uid = 0, ps_rTemplates = []\<rparr>"
  let ?st1 = "foldl (add_full ?tpls) ?st0 (rx_all refFullRx txt)"
  let ?st2 = "foldl (add_self ?tpls) ?st1 (rx_all refSelfRx txt)"
  let ?st3 = "foldl (add_rTemplate ?tpls) ?st2 (rx_all rTemplateRx txt)"
  let ?st4 = "foldl add_template ?st3 ?tpls"
  have 0: "parse_inv ?st0 \<and> no_ldr ?st0" by (simp add: parse_inv_def key_inv_def uid_inv_def no_ldr_def)
  have 1: "parse_inv ?st1 \<and> no_ldr ?st1"
    by (rule foldl_inv [where P = "\<lambda>s. parse_inv s \<and> no_ldr s", OF add_full_inv 0])
  have 2: "parse_inv ?st2 \<and> no_ldr ?st2"
    by (rule foldl_inv [where P = "\<lambda>s. parse_inv s \<and> no_ldr s", OF add_self_inv 1])
  have 3: "parse_inv ?st3 \<and> no_ldr ?st3"
    by (rule foldl_inv [where P = "\<lambda>s. parse_inv s \<and> no_ldr s", OF add_rTemplate_inv 2])
  then have 3: "parse_inv ?st3" by simp
  have 4: "parse_inv ?st4" by (rule foldl_inv [where P = parse_inv, OF add_template_inv 3])
  have "refs (parseWikitext txt names) = ps_refs ?st4" by (simp add: parseWikitext_def Let_def)
  then show ?thesis using 4 by blast
qed

lemma find_first:
  "find P xs = Some x \<Longrightarrow> \<exists>i < length xs. xs ! i = x \<and> P x \<and> (\<forall>j < i. \<not> P (xs ! j))"
  by (auto simp: find_Some_iff)

lemma find_exists: "x \<in> set xs \<Longrightarrow> P x \<Longrightarrow> \<exists>y. find P xs = Some y"
  by (cases "find P xs") (auto simp: find_None_iff)

lemma firstContent_find:
  "firstContent r = (case find has_body (definitions r @ ldrDefinitions r) of None \<Rightarrow> None | Some d \<Rightarrow> u_content d)"
  by (simp add: firstContent_def find_append_case split: option.splits)

lemma firstContent_earliest:
  assumes s: "sorted_wrt (<) (map u_uid (definitions r @ ldrDefinitions r))"
    and e: "\<exists>d \<in> set (definitions r @ ldrDefinitions r). has_body d"
  shows "\<exists>d0 \<in> set (definitions r @ ldrDefinitions r). has_body d0 \<and> firstContent r = u_content d0 \<and>
           (\<forall>d \<in> set (definitions r @ ldrDefinitions r). has_body d \<longrightarrow> u_uid d0 \<le> u_uid d)"
proof -
  let ?ds = "definitions r @ ldrDefinitions r"
  obtain d where d: "d \<in> set ?ds" "has_body d" using e by blast
  obtain d0 where f: "find has_body ?ds = Some d0" using find_exists [of d ?ds has_body] d by blast
  have "\<exists>i < length ?ds. ?ds ! i = d0 \<and> has_body d0 \<and> (\<forall>j < i. \<not> has_body (?ds ! j))"
    using f by (rule find_first)
  then obtain i where i: "i < length ?ds" "?ds ! i = d0" "has_body d0" "\<forall>j < i. \<not> has_body (?ds ! j)"
    by blast
  have c: "firstContent r = u_content d0" using f by (simp add: firstContent_find)
  have "u_uid d0 \<le> u_uid d" if d: "d \<in> set ?ds" "has_body d" for d
  proof -
    obtain j where j: "j < length ?ds" "?ds ! j = d" using d(1) by (metis in_set_conv_nth)
    then have "\<not> j < i" using i(4) d(2) by auto
    then consider "j = i" | "i < j" by linarith
    then show ?thesis
    proof cases
      case 1
      then show ?thesis using i(2) j(2) by simp
    next
      case 2
      have "sorted_wrt (\<lambda>a b. u_uid a < u_uid b) ?ds" using s by (simp only: sorted_wrt_map)
      then have "u_uid (?ds ! i) < u_uid (?ds ! j)" using 2 j(1) by (rule sorted_wrt_nth_less)
      then have "u_uid d0 < u_uid d" unfolding i(2) j(2) .
      then show ?thesis by simp
    qed
  qed
  then show ?thesis using i c by (metis nth_mem)
qed

lemma parseWikitext_uids:
  assumes "r \<in> set (refs (parseWikitext txt names))"
  shows "sorted_wrt (<) (map u_uid (definitions r @ ldrDefinitions r))"
proof -
  obtain st where st: "parse_inv st" "refs (parseWikitext txt names) = ps_refs st"
    using parseWikitext_state by blast
  then have "r \<in> set (ps_refs st)" using assms by simp
  then show ?thesis using st(1) by (simp add: parse_inv_def uid_inv_def)
qed

lemma parseReferences_content:
  assumes "r \<in> set (parseReferences txt)"
  shows "contentWikitext r = first_body (rf_id r) (keyed_bodies (pr_occurrences txt))"
proof -
  obtain st where st: "pr_refs st = parseReferences txt" "pr_inv (pr_occurrences txt) st"
    using parseReferences_inv by blast
  then have "r \<in> set (pr_refs st)" using assms by simp
  then show ?thesis using st(2) by (simp add: pr_inv_def)
qed

subsection \<open>Identity of occurrences\<close>























subsection \<open>First definition wins\<close>

lemma sample_redefined_list:
  "map (\<lambda>r. (rf_id r, contentWikitext r, length (rf_uses r))) (parseReferences sample_redefined) = [(''a'', ''One'', 3)]"
  by code_simp

lemma sample_redefined_records:
  "map (\<lambda>r. (ref_key r, map (\<lambda>d. (u_uid d, u_content d)) (definitions r), ldrDefinitions r))
     (refs (parseWikitext sample_redefined DEFAULT_REFLIST_TEMPLATES))
   = [(''::a'', [(0, Some '' ''), (1, Some ''One''), (2, Some ''Two'')], [])]"
  by code_simp

lemma has_body_samples:
  "\<not> has_body (d\<lparr>u_content := Some '' ''\<rparr>)" "has_body (d\<lparr>u_content := Some ''One''\<rparr>)"
proof -
  have "js_trim '' '' = []" "js_trim ''One'' \<noteq> []" by code_simp+
  then show "\<not> has_body (d\<lparr>u_content := Some '' ''\<rparr>)" "has_body (d\<lparr>u_content := Some ''One''\<rparr>)"
    by (simp_all add: has_body_def)
qed

lemma has_body_content: "u_content d = Some c \<Longrightarrow> has_body d = has_body (d\<lparr>u_content := Some c\<rparr>)"
  by (simp add: has_body_def)

text \<open>
  Claim C8.  \<open>parseReferences\<close> reports for every record the first body that is not empty
  among the occurrences of its identity, taken in the order of its scan; a later full
  tag of the same identity does not overwrite it.  In the transform engine the
  definitions of a record stand in the order in which the parser made them (the counter
  \<open>u_uid\<close>), and \<open>firstContent\<close> answers the body of the earliest of them that has one;
  a body of white space only counts as none.
\<close>

theorem C8_first_body_wins:
  "(r \<in> set (parseReferences txt) \<longrightarrow>
      contentWikitext r = first_body (rf_id r) (keyed_bodies (pr_occurrences txt))) \<and>
   (q \<in> set (refs (parseWikitext txt names)) \<and> (\<exists>d \<in> set (definitions q @ ldrDefinitions q). has_body d) \<longrightarrow>
      (\<exists>d0 \<in> set (definitions q @ ldrDefinitions q). has_body d0 \<and> firstContent q = u_content d0 \<and>
         (\<forall>d \<in> set (definitions q @ ldrDefinitions q). has_body d \<longrightarrow> u_uid d0 \<le> u_uid d)))"
proof (rule conjI)
  show "r \<in> set (parseReferences txt) \<longrightarrow>
      contentWikitext r = first_body (rf_id r) (keyed_bodies (pr_occurrences txt))"
    by (rule impI) (rule parseReferences_content)
next
  show "q \<in> set (refs (parseWikitext txt names)) \<and> (\<exists>d \<in> set (definitions q @ ldrDefinitions q). has_body d) \<longrightarrow>
      (\<exists>d0 \<in> set (definitions q @ ldrDefinitions q). has_body d0 \<and> firstContent q = u_content d0 \<and>
         (\<forall>d \<in> set (definitions q @ ldrDefinitions q). has_body d \<longrightarrow> u_uid d0 \<le> u_uid d))"
  proof (rule impI)
    assume a: "q \<in> set (refs (parseWikitext txt names)) \<and> (\<exists>d \<in> set (definitions q @ ldrDefinitions q). has_body d)"
    then have s: "sorted_wrt (<) (map u_uid (definitions q @ ldrDefinitions q))"
      using parseWikitext_uids by blast
    have e: "\<exists>d \<in> set (definitions q @ ldrDefinitions q). has_body d" using a by (rule conjunct2)
    show "\<exists>d0 \<in> set (definitions q @ ldrDefinitions q). has_body d0 \<and> firstContent q = u_content d0 \<and>
         (\<forall>d \<in> set (definitions q @ ldrDefinitions q). has_body d \<longrightarrow> u_uid d0 \<le> u_uid d)"
      using s e by (rule firstContent_earliest)
  qed
qed

theorem C8_witness:
  "hd (parseReferences sample_redefined) \<in> set (parseReferences sample_redefined) \<and>
   first_body ''a'' (keyed_bodies (pr_occurrences sample_redefined)) = ''One'' \<and>
   hd (refs (parseWikitext sample_redefined DEFAULT_REFLIST_TEMPLATES))
     \<in> set (refs (parseWikitext sample_redefined DEFAULT_REFLIST_TEMPLATES)) \<and>
   firstContent (hd (refs (parseWikitext sample_redefined DEFAULT_REFLIST_TEMPLATES))) = Some ''One''"
proof -
  let ?rs = "parseReferences sample_redefined"
  let ?qs = "refs (parseWikitext sample_redefined DEFAULT_REFLIST_TEMPLATES)"
  obtain r0 where r0: "?rs = [r0]" "rf_id r0 = ''a''" "contentWikitext r0 = ''One''"
    using sample_redefined_list unfolding map_eq_Cons_conv by auto
  obtain q0 where q0: "?qs = [q0]"
    and ds: "map (\<lambda>d. (u_uid d, u_content d)) (definitions q0) = [(0, Some '' ''), (1, Some ''One''), (2, Some ''Two'')]"
    and nl: "ldrDefinitions q0 = []"
    using sample_redefined_records unfolding map_eq_Cons_conv by auto
  let ?ds = "definitions q0 @ ldrDefinitions q0"
  obtain a b c where l0: "definitions q0 = [a, b, c]"
    and f: "u_uid a = 0" "u_content a = Some '' ''" "u_uid b = 1" "u_content b = Some ''One''" "u_uid c = 2"
    using ds unfolding map_eq_Cons_conv by auto
  have l: "?ds = [a, b, c]" using l0 nl by simp
  have hb: "has_body b" "\<not> has_body a"
    using has_body_content [OF f(4)] has_body_content [OF f(2)] has_body_samples by simp_all
  have mem: "r0 \<in> set ?rs" "q0 \<in> set ?qs" using r0(1) q0 by simp_all
  have ex: "\<exists>d \<in> set ?ds. has_body d" using l hb(1) by simp
  note c8 = C8_first_body_wins [of r0 "sample_redefined" q0 DEFAULT_REFLIST_TEMPLATES]
  have c1: "first_body ''a'' (keyed_bodies (pr_occurrences sample_redefined)) = ''One''"
    using c8 mem(1) r0(2,3) by simp
  obtain d0 where d0: "d0 \<in> set ?ds" "has_body d0" "firstContent q0 = u_content d0"
    "\<forall>d \<in> set ?ds. has_body d \<longrightarrow> u_uid d0 \<le> u_uid d"
    using c8 mem(2) ex by blast
  have "u_uid d0 \<le> 1" using d0(4) l hb(1) f(3) by simp
  moreover have "d0 = a \<or> d0 = b \<or> d0 = c" using d0(1) l by simp
  ultimately have "d0 = b" using d0(2) hb(2) f(5) by auto
  then have c2: "firstContent q0 = Some ''One''" using d0(3) f(4) by simp
  show ?thesis using c1 c2 r0(1) q0 by simp
qed








end
